theory Spec2Isabelle
  imports Main
begin

section \<open>The search-results component of the Microsoft Graph Toolkit\<close>

text \<open>
  A shallow embedding of \<^verbatim>\<open>mgt-search-results.ts\<close>: the request key, the response
  cache with its invalidation period, the thumbnail batches merged into the primary
  hits, the page layout of the footer and the \<^verbatim>\<open>queryString\<close> setter.

  JavaScript numbers are modelled as \<^typ>\<open>int\<close> (times in milliseconds, page numbers and
  sizes), a thrown exception as \<^term>\<open>Inl\<close> of a sum. \<^verbatim>\<open>undefined\<close> and \<^verbatim>\<open>null\<close> are
  \<^term>\<open>None\<close> where the source only tests them for truth or guards against both; the
  query string, which its setter compares with \<^verbatim>\<open>!==\<close>, and the values interpolated in
  a request path keep them apart. One run of \<^verbatim>\<open>loadState\<close> reads the clock as one value. Calls to collaborators that are not part of the component
  (the Graph client, the batch, the cache store, the base class) are parameters of
  the model and are recorded in an event list in the order the source makes them.
\<close>

subsection \<open>JavaScript values\<close>

datatype error = TypeError | SyntaxError | ExternalError string

text \<open>\<^verbatim>\<open>Number.prototype.toString\<close> on an integer: decimal digits, a minus sign first.\<close>

definition digitChar :: "nat \<Rightarrow> char" where
  "digitChar d = ''0123456789abcdef'' ! d"

fun toStringNat :: "nat \<Rightarrow> string" where
  "toStringNat n = (if n < 10 then [digitChar n] else toStringNat (n div 10) @ [digitChar (n mod 10)])"

declare toStringNat.simps [simp del]

definition toString :: "int \<Rightarrow> string" where
  "toString i = (if i < 0 then CHR ''-'' # toStringNat (nat (- i)) else toStringNat (nat i))"

text \<open>\<^verbatim>\<open>String.prototype.endsWith\<close>.\<close>

definition endsWith :: "string \<Rightarrow> string \<Rightarrow> bool" where
  "endsWith s suffix = (length suffix \<le> length s \<and> drop (length s - length suffix) s = suffix)"

text \<open>
  A string property that may be \<^verbatim>\<open>undefined\<close> or \<^verbatim>\<open>null\<close>: the three are different
  values for \<^verbatim>\<open>!==\<close>, and only a string that is not empty is truthy.
\<close>

datatype js_string = Undefined | Null | Str string

definition truthyJs :: "js_string \<Rightarrow> bool" where
  "truthyJs s = (case s of Str t \<Rightarrow> t \<noteq> [] | _ \<Rightarrow> False)"

text \<open>Truthiness of an optional string and of an optional number.\<close>

definition truthyStr :: "string option \<Rightarrow> bool" where
  "truthyStr s = (case s of None \<Rightarrow> False | Some t \<Rightarrow> t \<noteq> [])"

definition truthyNum :: "int option \<Rightarrow> bool" where
  "truthyNum n = (case n of None \<Rightarrow> False | Some k \<Rightarrow> k \<noteq> 0)"

text \<open>A value interpolated in a template literal.\<close>

definition tmpl :: "js_string \<Rightarrow> string" where
  "tmpl s = (case s of Undefined \<Rightarrow> ''undefined'' | Null \<Rightarrow> ''null'' | Str t \<Rightarrow> t)"

text \<open>
  The result of a division followed by \<^verbatim>\<open>Math.ceil\<close>: a number, an infinity
  (division by zero) or \<^verbatim>\<open>NaN\<close> (an undefined operand, or zero by zero).
\<close>

datatype jsnum = Num int | PosInf | NegInf | NaN

definition ceilDiv :: "int option \<Rightarrow> int \<Rightarrow> jsnum" where
  "ceilDiv t s =
     (case t of
        None \<Rightarrow> NaN
      | Some n \<Rightarrow>
          if s = 0 then (if 0 < n then PosInf else if n < 0 then NegInf else NaN)
          else Num (- ((- n) div s)))"

fun lessNum :: "int \<Rightarrow> jsnum \<Rightarrow> bool" where
  "lessNum i (Num k) = (i < k)"
| "lessNum i PosInf = True"
| "lessNum i NegInf = False"
| "lessNum i NaN = False"

fun eqNum :: "int \<Rightarrow> jsnum \<Rightarrow> bool" where
  "eqNum i (Num k) = (i = k)"
| "eqNum i PosInf = False"
| "eqNum i NegInf = False"
| "eqNum i NaN = False"

subsection \<open>JSON values and \<^verbatim>\<open>JSON.stringify\<close>\<close>

datatype json =
    JUndefined
  | JNull
  | JBool bool
  | JNum int
  | JStr string
  | JArr "json list"
  | JObj "(string \<times> json) list"

text \<open>
  \<^verbatim>\<open>QuoteJSONString\<close>: the quote and the backslash are escaped, control characters
  are written with their short escape or as \<^verbatim>\<open>\u00XX\<close>.
\<close>

definition quoteChar :: "char \<Rightarrow> string" where
  "quoteChar c =
     (if c = CHR 0x22 then [CHR 0x5C, CHR 0x22]
      else if c = CHR 0x5C then [CHR 0x5C, CHR 0x5C]
      else if c = CHR 0x08 then [CHR 0x5C, CHR ''b'']
      else if c = CHR 0x09 then [CHR 0x5C, CHR ''t'']
      else if c = CHR 0x0A then [CHR 0x5C, CHR ''n'']
      else if c = CHR 0x0C then [CHR 0x5C, CHR ''f'']
      else if c = CHR 0x0D then [CHR 0x5C, CHR ''r'']
      else if (of_char c :: nat) < 32
        then [CHR 0x5C, CHR ''u'', CHR ''0'', CHR ''0'',
              digitChar ((of_char c :: nat) div 16), digitChar ((of_char c :: nat) mod 16)]
      else [c])"

definition quoteJSONString :: "string \<Rightarrow> string" where
  "quoteJSONString s = CHR 0x22 # concat (map quoteChar s) @ [CHR 0x22]"

fun join :: "string \<Rightarrow> string list \<Rightarrow> string" where
  "join sep [] = []"
| "join sep [x] = x"
| "join sep (x # y # ys) = x @ sep @ join sep (y # ys)"

text \<open>
  \<^verbatim>\<open>SerializeJSONProperty\<close>: \<^verbatim>\<open>undefined\<close> has no serialization; an object leaves
  out the properties whose value is \<^verbatim>\<open>undefined\<close> and keeps the others in insertion
  order (the keys are not sorted); an array writes \<^verbatim>\<open>null\<close> for \<^verbatim>\<open>undefined\<close>.
\<close>

primrec stringify :: "json \<Rightarrow> string option"
  and stringifyElements :: "json list \<Rightarrow> string list"
  and stringifyMembers :: "(string \<times> json) list \<Rightarrow> string list"
  and stringifyMember :: "string \<times> json \<Rightarrow> string list"
where
  "stringify JUndefined = None"
| "stringify JNull = Some ''null''"
| "stringify (JBool b) = Some (if b then ''true'' else ''false'')"
| "stringify (JNum n) = Some (toString n)"
| "stringify (JStr s) = Some (quoteJSONString s)"
| "stringify (JArr xs) = Some (''['' @ join '','' (stringifyElements xs) @ '']'')"
| "stringify (JObj ms) = Some (''{'' @ join '','' (stringifyMembers ms) @ ''}'')"
| "stringifyElements [] = []"
| "stringifyElements (x # xs) =
     (case stringify x of None \<Rightarrow> ''null'' | Some s \<Rightarrow> s) # stringifyElements xs"
| "stringifyMembers [] = []"
| "stringifyMembers (m # ms) = stringifyMember m @ stringifyMembers ms"
| "stringifyMember (k, v) =
     (case stringify v of None \<Rightarrow> [] | Some s \<Rightarrow> [quoteJSONString k @ '':'' @ s])"

text \<open>\<^verbatim>\<open>JSON.stringify\<close> of an object literal, which always has a serialization.\<close>

definition JSON_stringify :: "json \<Rightarrow> string" where
  "JSON_stringify v = (case stringify v of None \<Rightarrow> ''undefined'' | Some s \<Rightarrow> s)"

subsection \<open>The search response\<close>

text \<open>
  The part of the Graph search response that the component reads:
  \<^verbatim>\<open>response.value[0].hitsContainers[0].hits[i].resource\<close>. A field the source reads
  with a guard, compares or interpolates is optional; \<^verbatim>\<open>hits\<close> is optional too (a
  container without hits has no such property).
\<close>

record thumbnail =
  url :: "string option"

record item_reference =
  siteId :: js_string
  driveId :: js_string

record resource =
  odata_type :: "string option"
  resource_id :: js_string
  resource_size :: "int option"
  webUrl :: "string option"
  parentReference :: "item_reference option"
  thumbnail :: "thumbnail option"

record search_hit =
  hitId :: "string option"
  resource :: resource

record hits_container =
  hits :: "search_hit list option"
  total :: "int option"
  moreResultsAvailable :: "bool option"

record search_response =
  hitsContainers :: "hits_container list"

record response =
  response_value :: "search_response list"

text \<open>\<^verbatim>\<open>response.value[0].hitsContainers[0].hits\<close>: a \<^verbatim>\<open>TypeError\<close> where a step is undefined.\<close>

definition firstHits :: "response \<Rightarrow> error + search_hit list" where
  "firstHits r =
     (case response_value r of
        [] \<Rightarrow> Inl TypeError
      | v # _ \<Rightarrow>
          (case hitsContainers v of
             [] \<Rightarrow> Inl TypeError
           | hc # _ \<Rightarrow> (case hits hc of None \<Rightarrow> Inl TypeError | Some hs \<Rightarrow> Inr hs)))"

text \<open>The same response with the hits of its first container replaced (the hits are mutated in place).\<close>

definition setHits :: "response \<Rightarrow> search_hit list \<Rightarrow> response" where
  "setHits r hs =
     (case response_value r of
        [] \<Rightarrow> r
      | v # vs \<Rightarrow>
          (case hitsContainers v of
             [] \<Rightarrow> r
           | hc # hcs \<Rightarrow>
               r\<lparr>response_value := v\<lparr>hitsContainers := hc\<lparr>hits := Some hs\<rparr> # hcs\<rparr> # vs\<rparr>))"

text \<open>\<^verbatim>\<open>this.response?.value[0]?.hitsContainers[0]\<close>, as \<^verbatim>\<open>render\<close> passes it to the footer.\<close>

definition firstHitsContainer :: "response option \<Rightarrow> hits_container option" where
  "firstHitsContainer ro =
     (case ro of
        None \<Rightarrow> None
      | Some r \<Rightarrow>
          (case response_value r of
             [] \<Rightarrow> None
           | v # _ \<Rightarrow> (case hitsContainers v of [] \<Rightarrow> None | hc # _ \<Rightarrow> Some hc)))"

subsection \<open>The component\<close>

text \<open>The properties and private fields of \<^verbatim>\<open>MgtSearchResults\<close> that the modelled code reads or writes.\<close>

record component =
  queryString :: js_string
  queryTemplate :: "string option"
  entityTypes :: "string list"
  scopes :: "string list option"
  contentSources :: "string list option"
  version :: string
  size_c :: int
  pagingMax :: int
  fetchThumbnail :: bool
  fields_c :: "string list option"
  enableTopResults :: bool
  cacheEnabled :: bool
  cacheInvalidationPeriod :: "int option"
  response :: "response option"
  error :: "error option"
  isRefreshing :: bool
  currentPage :: int

definition SEARCH_ENDPOINT :: string where
  "SEARCH_ENDPOINT = ''/search/query''"

definition MAX_PAGE_SIZE :: int where
  "MAX_PAGE_SIZE = 1000"

definition DEFAULT_FIELDS :: "string list" where
  "DEFAULT_FIELDS =
     [''webUrl'', ''lastModifiedBy'', ''lastModifiedDateTime'', ''summary'', ''displayName'', ''name'']"

text \<open>The component as its field initialisers leave it.\<close>

definition initial :: component where
  "initial =
     \<lparr>queryString = Undefined, queryTemplate = None,
      entityTypes = [''driveItem'', ''listItem'', ''site''],
      scopes = Some [], contentSources = Some [], version = ''v1.0'',
      size_c = 10, pagingMax = 7, fetchThumbnail = False, fields_c = None,
      enableTopResults = False, cacheEnabled = False,
      cacheInvalidationPeriod = Some 30000, response = None, error = None,
      isRefreshing = False, currentPage = 1\<rparr>"

definition set_size :: "int \<Rightarrow> component \<Rightarrow> component" where
  "set_size v c = (if v > MAX_PAGE_SIZE then c\<lparr>size_c := MAX_PAGE_SIZE\<rparr> else c\<lparr>size_c := v\<rparr>)"

definition from_c :: "component \<Rightarrow> int" where
  "from_c c = (currentPage c - 1) * size_c c"

subsection \<open>Events\<close>

text \<open>
  The calls that leave the component, and the writes to the hits and to the response
  between them, in the order the source makes them.
\<close>

datatype batch_kind = V1 | Beta

datatype event =
    SetLoadingState bool
  | RequestStateUpdate bool
  | GetValue string
  | Post string "string list" json
  | ExecuteAll batch_kind "(string \<times> string) list"
  | Resolved batch_kind
  | Rejected batch_kind
  | Mutate batch_kind string
  | SetResponse
  | PutValue string string
  | FireDataChange

subsection \<open>The \<^verbatim>\<open>queryString\<close> setter\<close>

text \<open>
  \<^verbatim>\<open>setLoadingState\<close> and \<^verbatim>\<open>requestStateUpdate\<close> belong to the base class; the setter's
  calls to them are recorded as events.
\<close>

definition set_queryString :: "js_string \<Rightarrow> component \<Rightarrow> component \<times> event list" where
  "set_queryString v c =
     (if queryString c \<noteq> v
      then (c\<lparr>queryString := v, currentPage := 1\<rparr>, [SetLoadingState True, RequestStateUpdate True])
      else (c, []))"

subsection \<open>The request options and the cache key\<close>

definition getFields :: "component \<Rightarrow> json" where
  "getFields c =
     (case fields_c c of
        Some fs \<Rightarrow> JArr (map JStr (DEFAULT_FIELDS @ fs))
      | None \<Rightarrow> JUndefined)"

definition jsonOfJs :: "js_string \<Rightarrow> json" where
  "jsonOfJs s = (case s of Undefined \<Rightarrow> JUndefined | Null \<Rightarrow> JNull | Str t \<Rightarrow> JStr t)"

definition jsonOfString :: "string option \<Rightarrow> json" where
  "jsonOfString s = (case s of None \<Rightarrow> JUndefined | Some t \<Rightarrow> JStr t)"

definition getRequestOptions :: "component \<Rightarrow> json" where
  "getRequestOptions c =
     JObj
       ([(''entityTypes'', JArr (map JStr (entityTypes c))),
         (''query'',
            JObj
              ([(''queryString'', jsonOfJs (queryString c))] @
               (if version c = ''beta''
                then [(''queryTemplate'',
                       if truthyStr (queryTemplate c) then jsonOfString (queryTemplate c) else JUndefined)]
                else []))),
         (''from'', if from_c c \<noteq> 0 then JNum (from_c c) else JUndefined),
         (''size'', if size_c c \<noteq> 0 then JNum (size_c c) else JUndefined),
         (''fields'', getFields c),
         (''enableTopResults'', if enableTopResults c then JBool True else JUndefined)] @
        (if ''externalItem'' \<in> set (entityTypes c)
         then [(''contentSources'',
                case contentSources c of None \<Rightarrow> JNull | Some cs \<Rightarrow> JArr (map JStr cs))]
         else []))"

definition cacheKeyObject :: "string \<Rightarrow> json \<Rightarrow> json" where
  "cacheKeyObject endpoint requestOptions =
     JObj [(''endpoint'', JStr endpoint), (''requestOptions'', requestOptions)]"

definition cacheKey :: "component \<Rightarrow> string" where
  "cacheKey c = JSON_stringify (cacheKeyObject (version c @ SEARCH_ENDPOINT) (getRequestOptions c))"

subsection \<open>The page layout of the footer\<close>

definition pagingRequired :: "component \<Rightarrow> hits_container option \<Rightarrow> bool" where
  "pagingRequired c hitsContainer =
     (case hitsContainer of
        None \<Rightarrow> False
      | Some hc \<Rightarrow>
          moreResultsAvailable hc = Some True \<or>
          (case total hc of None \<Rightarrow> False | Some t \<Rightarrow> currentPage c * size_c c < t))"

definition getFirstPage :: "component \<Rightarrow> int" where
  "getFirstPage c =
     (let medianPage = currentPage c - pagingMax c div 2 - 1
      in if medianPage \<ge> pagingMax c div 2 then medianPage else 0)"

function pagesFromMedian :: "component \<Rightarrow> jsnum \<Rightarrow> int \<Rightarrow> int list \<Rightarrow> int list" where
  "pagesFromMedian c lastPage i pages =
     (if lessNum i lastPage \<and> i < pagingMax c + (currentPage c - 1) \<and>
         int (length pages) < pagingMax c - 2
      then pagesFromMedian c lastPage (i + 1) (pages @ [i + 1])
      else pages)"
  by pat_completeness auto
termination
  by (relation "measure (\<lambda>(c, lastPage, i, pages). nat (pagingMax c + (currentPage c - 1) - i))") auto

function pagesFromFirst :: "component \<Rightarrow> int \<Rightarrow> int list \<Rightarrow> int list" where
  "pagesFromFirst c i pages =
     (if i < pagingMax c then pagesFromFirst c (i + 1) (pages @ [i + 1]) else pages)"
  by pat_completeness auto
termination
  by (relation "measure (\<lambda>(c, i, pages). nat (pagingMax c - i))") auto

declare pagesFromMedian.simps [simp del]
declare pagesFromFirst.simps [simp del]

definition getActivePages :: "component \<Rightarrow> int option \<Rightarrow> int list" where
  "getActivePages c totalResults =
     (let firstPage = getFirstPage c
      in if firstPage + 1 > pagingMax c - currentPage c \<or> pagingMax c = currentPage c
         then pagesFromMedian c (ceilDiv totalResults (size_c c)) (firstPage + 1) []
         else pagesFromFirst c firstPage [])"

text \<open>
  The footer: which controls are rendered. \<^verbatim>\<open>renderFirstPage\<close> gives the button of
  page 1 and the ellipsis button, \<^verbatim>\<open>renderAllPages\<close> one button per page number.
\<close>

record footer =
  previousPage :: bool
  firstPage :: bool
  pageBackDot :: bool
  allPages :: "int list"
  nextPage :: bool

definition renderFirstPage :: "component \<Rightarrow> int list \<Rightarrow> bool \<times> bool" where
  "renderFirstPage c pages =
     (if 1 \<in> set pages then (False, False)
      else (True, currentPage c - pagingMax c div 2 > 0))"

definition renderPreviousPage :: "component \<Rightarrow> bool" where
  "renderPreviousPage c = (currentPage c > 1)"

definition isLastPage :: "component \<Rightarrow> error + bool" where
  "isLastPage c =
     (case response c of
        None \<Rightarrow> Inl TypeError
      | Some r \<Rightarrow>
          (case response_value r of
             [] \<Rightarrow> Inl TypeError
           | v # _ \<Rightarrow>
               (case hitsContainers v of
                  [] \<Rightarrow> Inl TypeError
                | hc # _ \<Rightarrow> Inr (eqNum (currentPage c) (ceilDiv (total hc) (size_c c))))))"

definition renderNextPage :: "component \<Rightarrow> error + bool" where
  "renderNextPage c = (case isLastPage c of Inl e \<Rightarrow> Inl e | Inr b \<Rightarrow> Inr (\<not> b))"

definition renderFooter :: "component \<Rightarrow> hits_container option \<Rightarrow> error + footer option" where
  "renderFooter c hitsContainer =
     (if pagingRequired c hitsContainer
      then
        (case hitsContainer of
           None \<Rightarrow> Inl TypeError
         | Some hc \<Rightarrow>
             (let pages = getActivePages c (total hc)
              in case renderNextPage c of
                   Inl e \<Rightarrow> Inl e
                 | Inr n \<Rightarrow>
                     Inr (Some \<lparr>previousPage = renderPreviousPage c,
                                firstPage = fst (renderFirstPage c pages),
                                pageBackDot = snd (renderFirstPage c pages),
                                allPages = pages,
                                nextPage = n\<rparr>)))
      else Inr None)"

definition renderedFooter :: "component \<Rightarrow> error + footer option" where
  "renderedFooter c = renderFooter c (firstHitsContainer (response c))"

subsection \<open>The response cache\<close>

text \<open>
  \<^verbatim>\<open>CacheService.config\<close>, a stored \<^verbatim>\<open>CacheResponse\<close> and the store of the search
  responses. An undefined period compares false with every number.
\<close>

record cache_config =
  isEnabled :: bool
  response_isEnabled :: bool
  response_invalidationPeriod :: "int option"
  defaultInvalidationPeriod :: "int option"

record cache_response =
  cached_response :: string
  timeCached :: int

type_synonym cache_store = "string \<Rightarrow> cache_response option"

definition getResponseInvalidationTime :: "cache_config \<Rightarrow> int option \<Rightarrow> int option" where
  "getResponseInvalidationTime cfg currentInvalidationPeriod =
     (if truthyNum currentInvalidationPeriod then currentInvalidationPeriod
      else if truthyNum (response_invalidationPeriod cfg) then response_invalidationPeriod cfg
      else defaultInvalidationPeriod cfg)"

definition getIsResponseCacheEnabled :: "cache_config \<Rightarrow> bool" where
  "getIsResponseCacheEnabled cfg = (response_isEnabled cfg \<and> isEnabled cfg)"

definition greaterThan_js :: "int option \<Rightarrow> int \<Rightarrow> bool" where
  "greaterThan_js a b = (case a of None \<Rightarrow> False | Some x \<Rightarrow> x > b)"

subsection \<open>The collaborators\<close>

text \<open>
  What the component is given: the provider's state, the cache configuration, the clock,
  \<^verbatim>\<open>JSON.parse\<close> on a cached payload (an exception, a falsy value or a response),
  \<^verbatim>\<open>JSON.stringify\<close> on a response, the \<^verbatim>\<open>post\<close> of the search request (version, scopes
  and body), and \<^verbatim>\<open>executeAll\<close> of a batch of \<^verbatim>\<open>(id, path)\<close> requests, which rejects
  or resolves to a map from ids to responses, in iteration order.
\<close>

record batch_content =
  content_url :: "string option"
  thumbnailWebUrl :: "string option"

record batch_response =
  content :: "batch_content option"

type_synonym batch_requests = "(string \<times> string) list"

type_synonym batch_map = "(string \<times> batch_response) list"

record env =
  signedIn :: bool
  config :: cache_config
  now :: int
  getValueError :: "error option"
  JSON_parse :: "string \<Rightarrow> error + response option"
  stringifyResponse :: "response \<Rightarrow> string"
  post :: "string \<Rightarrow> string list \<Rightarrow> json \<Rightarrow> error + response"
  executeAll :: "batch_kind \<Rightarrow> batch_requests \<Rightarrow> error + batch_map option"

definition shouldRetrieveCache :: "env \<Rightarrow> component \<Rightarrow> bool" where
  "shouldRetrieveCache env c =
     (getIsResponseCacheEnabled (config env) \<and> cacheEnabled c \<and> \<not> isRefreshing c)"

definition shouldUpdateCache :: "env \<Rightarrow> component \<Rightarrow> bool" where
  "shouldUpdateCache env c = (getIsResponseCacheEnabled (config env) \<and> cacheEnabled c)"

definition getValue :: "env \<Rightarrow> cache_store \<Rightarrow> string \<Rightarrow> error + cache_response option" where
  "getValue env st key = (case getValueError env of Some e \<Rightarrow> Inl e | None \<Rightarrow> Inr (st key))"

text \<open>
  Modelled from the spec: \<^verbatim>\<open>CacheStore.putValue\<close> is not part of the sources at hand;
  it writes the payload with the current timestamp and overwrites any prior entry.
\<close>

definition putValue :: "env \<Rightarrow> cache_store \<Rightarrow> string \<Rightarrow> string \<Rightarrow> cache_store" where
  "putValue env st key payload = st(key \<mapsto> \<lparr>cached_response = payload, timeCached = now env\<rparr>)"

text \<open>
  The cache read of \<^verbatim>\<open>loadState\<close>: the value of the local \<^verbatim>\<open>response\<close> after it, or
  the exception thrown by the store or by \<^verbatim>\<open>JSON.parse\<close>.
\<close>

definition readCache ::
  "env \<Rightarrow> cache_store \<Rightarrow> component \<Rightarrow> string \<Rightarrow> (error + response option) \<times> event list" where
  "readCache env st c key =
     (if shouldRetrieveCache env c
      then
        (case (if getIsResponseCacheEnabled (config env) then getValue env st key else Inr None) of
           Inl e \<Rightarrow> (Inl e, [GetValue key])
         | Inr None \<Rightarrow> (Inr None, [GetValue key])
         | Inr (Some result) \<Rightarrow>
             if greaterThan_js
                  (getResponseInvalidationTime (config env) (cacheInvalidationPeriod c))
                  (now env - timeCached result)
             then (JSON_parse env (cached_response result), [GetValue key])
             else (Inr None, [GetValue key]))
      else (Inr None, []))"

subsection \<open>The thumbnail batches\<close>

definition DRIVE_ITEM :: string where
  "DRIVE_ITEM = ''#microsoft.graph.driveItem''"

definition LIST_ITEM :: string where
  "LIST_ITEM = ''#microsoft.graph.listItem''"

text \<open>The condition under which the loop adds a request for a hit.\<close>

definition eligible :: "search_hit \<Rightarrow> bool" where
  "eligible element =
     (((case resource_size (resource element) of None \<Rightarrow> False | Some n \<Rightarrow> n > 0) \<or>
       (case webUrl (resource element) of None \<Rightarrow> False | Some u \<Rightarrow> endsWith u ''.aspx'')) \<and>
      (odata_type (resource element) = Some DRIVE_ITEM \<or>
       odata_type (resource element) = Some LIST_ITEM))"

text \<open>
  The loop over the hits, from index \<open>i\<close>: the requests added to the v1.0 batch and to
  the beta batch, each under the id \<^verbatim>\<open>i.toString()\<close>. Reading \<^verbatim>\<open>parentReference.siteId\<close>
  of a resource without \<^verbatim>\<open>parentReference\<close> throws.
\<close>

fun thumbnailRequests ::
  "nat \<Rightarrow> search_hit list \<Rightarrow> batch_requests \<times> batch_requests \<Rightarrow>
   error + batch_requests \<times> batch_requests" where
  "thumbnailRequests i [] (thumbnailBatch, thumbnailBatchBeta) =
     Inr (thumbnailBatch, thumbnailBatchBeta)"
| "thumbnailRequests i (element # rest) (thumbnailBatch, thumbnailBatchBeta) =
     (if eligible element
      then
        (case parentReference (resource element) of
           None \<Rightarrow> Inl TypeError
         | Some p \<Rightarrow>
             if odata_type (resource element) = Some LIST_ITEM
             then thumbnailRequests (Suc i) rest
                    (thumbnailBatch,
                     thumbnailBatchBeta @
                       [(toString (int i),
                         ''/sites/'' @ tmpl (siteId p) @ ''/pages/'' @
                           tmpl (resource_id (resource element)))])
             else thumbnailRequests (Suc i) rest
                    (thumbnailBatch @
                       [(toString (int i),
                         ''/drives/'' @ tmpl (driveId p) @ ''/items/'' @
                           tmpl (resource_id (resource element)) @ ''/thumbnails/0/medium'')],
                     thumbnailBatchBeta))
      else thumbnailRequests (Suc i) rest (thumbnailBatch, thumbnailBatchBeta))"

text \<open>
  \<^verbatim>\<open>hits[key]\<close> for a string key: the element at the index whose decimal form the key
  is; any other key gives no hit, and reading its resource throws.
\<close>

definition arrayIndex :: "'a list \<Rightarrow> string \<Rightarrow> nat option" where
  "arrayIndex xs key = find (\<lambda>i. toString (int i) = key) [0..<length xs]"

text \<open>The thumbnail built from the content of a batch response, by the kind of the hit.\<close>

definition thumbnailOf :: "search_hit \<Rightarrow> batch_content \<Rightarrow> thumbnail" where
  "thumbnailOf result ct =
     (if odata_type (resource result) = Some LIST_ITEM
      then \<lparr>url = thumbnailWebUrl ct\<rparr>
      else \<lparr>url = content_url ct\<rparr>)"

definition withThumbnail :: "thumbnail \<Rightarrow> search_hit \<Rightarrow> search_hit" where
  "withThumbnail t h = h\<lparr>resource := (resource h)\<lparr>thumbnail := Some t\<rparr>\<rparr>"

text \<open>
  \<^verbatim>\<open>augmentResponse\<close>: the hits after the loop over the batch responses, the exception
  that stopped it (the writes made before it stay), and one event per hit written.
\<close>

fun augmentEach ::
  "batch_kind \<Rightarrow> batch_map \<Rightarrow> search_hit list \<Rightarrow> search_hit list \<times> error option \<times> event list" where
  "augmentEach b [] hs = (hs, None, [])"
| "augmentEach b ((key, v) # rest) hs =
     (case arrayIndex hs key of
        None \<Rightarrow> (hs, Some TypeError, [])
      | Some i \<Rightarrow>
          (case content v of
             None \<Rightarrow> (hs, Some TypeError, [])
           | Some ct \<Rightarrow>
               (case augmentEach b rest (hs[i := withThumbnail (thumbnailOf (hs ! i) ct) (hs ! i)]) of
                  (hs', err, evs) \<Rightarrow> (hs', err, Mutate b key # evs))))"

definition augmentResponse ::
  "batch_kind \<Rightarrow> batch_map option \<Rightarrow> search_hit list \<Rightarrow>
   search_hit list \<times> error option \<times> event list" where
  "augmentResponse b thumbnailResponse hs =
     (case thumbnailResponse of
        None \<Rightarrow> (hs, None, [])
      | Some m \<Rightarrow> if length m > 0 then augmentEach b m hs else (hs, None, []))"

text \<open>
  The \<^verbatim>\<open>try\<close> block around the two batches: the v1.0 batch is executed and merged, then
  the beta batch is executed and merged; an exception at any point ends the block and
  is dropped.
\<close>

definition thumbnailTry ::
  "env \<Rightarrow> batch_requests \<Rightarrow> batch_requests \<Rightarrow> search_hit list \<Rightarrow> search_hit list \<times> event list" where
  "thumbnailTry env thumbnailBatch thumbnailBatchBeta hs =
     (case executeAll env V1 thumbnailBatch of
        Inl e \<Rightarrow> (hs, [ExecuteAll V1 thumbnailBatch, Rejected V1])
      | Inr m1 \<Rightarrow>
          (case augmentResponse V1 m1 hs of
             (hs1, Some e, ev1) \<Rightarrow> (hs1, [ExecuteAll V1 thumbnailBatch, Resolved V1] @ ev1)
           | (hs1, None, ev1) \<Rightarrow>
               (case executeAll env Beta thumbnailBatchBeta of
                  Inl e \<Rightarrow>
                    (hs1,
                     [ExecuteAll V1 thumbnailBatch, Resolved V1] @ ev1 @
                     [ExecuteAll Beta thumbnailBatchBeta, Rejected Beta])
                | Inr m2 \<Rightarrow>
                    (case augmentResponse Beta m2 hs1 of
                       (hs2, err2, ev2) \<Rightarrow>
                         (hs2,
                          [ExecuteAll V1 thumbnailBatch, Resolved V1] @ ev1 @
                          [ExecuteAll Beta thumbnailBatchBeta, Resolved Beta] @ ev2)))))"

text \<open>The thumbnail part of \<^verbatim>\<open>loadState\<close>: the loop is outside the inner \<^verbatim>\<open>try\<close>.\<close>

definition fetchThumbnails :: "env \<Rightarrow> response \<Rightarrow> (error + response) \<times> event list" where
  "fetchThumbnails env r =
     (case firstHits r of
        Inl e \<Rightarrow> (Inl e, [])
      | Inr hs \<Rightarrow>
          (case thumbnailRequests 0 hs ([], []) of
             Inl e \<Rightarrow> (Inl e, [])
           | Inr (thumbnailBatch, thumbnailBatchBeta) \<Rightarrow>
               (case thumbnailTry env thumbnailBatch thumbnailBatchBeta hs of
                  (hs', evs) \<Rightarrow> (Inr (setHits r hs'), evs))))"

subsection \<open>\<^verbatim>\<open>loadState\<close>\<close>

text \<open>\<^verbatim>\<open>if (!equals(this.response, response)) this.response = response\<close>.\<close>

definition assignResponse :: "component \<Rightarrow> response \<Rightarrow> component \<times> event list" where
  "assignResponse c r =
     (if response c \<noteq> Some r then (c\<lparr>response := Some r\<rparr>, [SetResponse]) else (c, []))"

text \<open>
  The fetch path, taken when the cache gave no response: the store, the component and
  the events after it, and the local \<^verbatim>\<open>response\<close> or the exception thrown.
\<close>

definition requestScopes :: "component \<Rightarrow> string list" where
  "requestScopes c = (case scopes c of None \<Rightarrow> [] | Some s \<Rightarrow> s)"

definition searchBody :: "json \<Rightarrow> json" where
  "searchBody requestOptions = JObj [(''requests'', JArr [requestOptions])]"

definition fetchResponse ::
  "env \<Rightarrow> cache_store \<Rightarrow> component \<Rightarrow> string \<Rightarrow> json \<Rightarrow>
   (cache_store \<times> component \<times> event list) \<times> (error + response)" where
  "fetchResponse env st c key requestOptions =
     (let ev0 = [Post (version c) (requestScopes c) (searchBody requestOptions)]
      in case post env (version c) (requestScopes c) (searchBody requestOptions) of
           Inl e \<Rightarrow> ((st, c, ev0), Inl e)
         | Inr r0 \<Rightarrow>
             (case (if fetchThumbnail c then fetchThumbnails env r0 else (Inr r0, [])) of
                (Inl e, ev1) \<Rightarrow> ((st, c, ev0 @ ev1), Inl e)
              | (Inr r, ev1) \<Rightarrow>
                  (case assignResponse c r of
                     (c1, ev2) \<Rightarrow>
                       if shouldUpdateCache env c1
                       then ((putValue env st key (stringifyResponse env r), c1,
                              ev0 @ ev1 @ ev2 @ [PutValue key (stringifyResponse env r)]), Inr r)
                       else ((st, c1, ev0 @ ev1 @ ev2), Inr r))))"

text \<open>The body of the outer \<^verbatim>\<open>try\<close>, with the exception it ends with, if any.\<close>

definition loadBody ::
  "env \<Rightarrow> cache_store \<Rightarrow> component \<Rightarrow> (cache_store \<times> component \<times> event list) \<times> error option" where
  "loadBody env st c =
     (let requestOptions = getRequestOptions c;
          key = JSON_stringify (cacheKeyObject (version c @ SEARCH_ENDPOINT) requestOptions)
      in case readCache env st c key of
           (Inl e, ev) \<Rightarrow> ((st, c, ev), Some e)
         | (Inr (Some r), ev) \<Rightarrow>
             (case assignResponse c r of (c1, ev1) \<Rightarrow> ((st, c1, ev @ ev1), None))
         | (Inr None, ev) \<Rightarrow>
             (case fetchResponse env st c key requestOptions of
                ((st1, c1, ev1), Inl e) \<Rightarrow> ((st1, c1, ev @ ev1), Some e)
              | ((st1, c1, ev1), Inr r) \<Rightarrow>
                  (case assignResponse c1 r of (c2, ev2) \<Rightarrow> ((st1, c2, ev @ ev1 @ ev2), None))))"

definition loadState ::
  "env \<Rightarrow> cache_store \<Rightarrow> component \<Rightarrow> cache_store \<times> component \<times> event list" where
  "loadState env st c =
     (let c0 = c\<lparr>error := None\<rparr>
      in if \<not> signedIn env then (st, c0, [])
         else
           (case (if truthyJs (queryString c0)
                  then
                    (case loadBody env st c0 of
                       ((st1, c1, ev), thrown) \<Rightarrow>
                         (let c2 = (case thrown of Some e \<Rightarrow> c1\<lparr>error := Some e\<rparr> | None \<Rightarrow> c1);
                              c3 = (if response c2 \<noteq> None then c2\<lparr>error := None\<rparr> else c2)
                          in (st1, c3, ev)))
                  else (st, c0\<lparr>response := None\<rparr>, [])) of
              (st1, c3, ev) \<Rightarrow> (st1, c3\<lparr>isRefreshing := False\<rparr>, ev @ [FireDataChange])))"

text \<open>The primary search request of a component, as \<^verbatim>\<open>loadState\<close> posts it.\<close>

definition primaryRequest :: "env \<Rightarrow> component \<Rightarrow> error + response" where
  "primaryRequest env c =
     post env (version c) (requestScopes c) (searchBody (getRequestOptions c))"

text \<open>The posts of the primary request among the events.\<close>

fun isPost :: "event \<Rightarrow> bool" where
  "isPost (Post v sc body) = True"
| "isPost _ = False"

definition posts :: "event list \<Rightarrow> event list" where
  "posts evs = filter isPost evs"

subsection \<open>The specification's words, and concrete inputs\<close>

text \<open>
  A run of consecutive page numbers centred on page \<open>p\<close>: as many pages before \<open>p\<close>
  as after it.
\<close>

definition centeredRun :: "int \<Rightarrow> int list \<Rightarrow> bool" where
  "centeredRun p pages =
     (pages \<noteq> [] \<and> pages = [hd pages..last pages] \<and> p - hd pages = last pages - p)"

text \<open>Page 5 of 95 results, ten to a page, at most seven page buttons.\<close>

definition hc6 :: hits_container where
  "hc6 = \<lparr>hits = Some [], total = Some 95, moreResultsAvailable = Some False\<rparr>"

definition c6 :: component where
  "c6 = initial\<lparr>currentPage := 5,
                response := Some \<lparr>response_value = [\<lparr>hitsContainers = [hc6]\<rparr>]\<rparr>\<rparr>"

subsection \<open>What \<^verbatim>\<open>loadState\<close> leaves behind\<close>

text \<open>
  The store, the component and the events after \<^verbatim>\<open>loadState\<close>, and
  \<^verbatim>\<open>this.response.value[0].hitsContainers[0].hits\<close> of the component after it.
\<close>

definition storeAfter :: "env \<Rightarrow> cache_store \<Rightarrow> component \<Rightarrow> cache_store" where
  "storeAfter env st c = fst (loadState env st c)"

definition componentAfter :: "env \<Rightarrow> cache_store \<Rightarrow> component \<Rightarrow> component" where
  "componentAfter env st c = fst (snd (loadState env st c))"

definition eventsAfter :: "env \<Rightarrow> cache_store \<Rightarrow> component \<Rightarrow> event list" where
  "eventsAfter env st c = snd (snd (loadState env st c))"

definition hitsAfter :: "env \<Rightarrow> cache_store \<Rightarrow> component \<Rightarrow> error + search_hit list" where
  "hitsAfter env st c =
     (case response (componentAfter env st c) of None \<Rightarrow> Inl TypeError | Some r \<Rightarrow> firstHits r)"

subsection \<open>Batch answers\<close>

text \<open>
  The entries of a resolved batch, and a batch that answers its requests: one entry at
  most for an id, only ids that were requested, and every entry with a content.
\<close>

definition entries :: "batch_map option \<Rightarrow> batch_map" where
  "entries m = (case m of None \<Rightarrow> [] | Some kvs \<Rightarrow> kvs)"


subsection \<open>Orders of events\<close>

text \<open>
  A write to a hit by the responses of batch \<open>b\<close>, and a write to a hit by any batch.
\<close>

fun isMutateOf :: "batch_kind \<Rightarrow> event \<Rightarrow> bool" where
  "isMutateOf b (Mutate b' key) = (b = b')"
| "isMutateOf b _ = False"

fun isMutate :: "event \<Rightarrow> bool" where
  "isMutate (Mutate b key) = True"
| "isMutate _ = False"

text \<open>
  Every write to a hit comes after the batch it belongs to has resolved; \<open>R\<close> holds
  the batches resolved so far.
\<close>

fun mergedAfterResolved :: "batch_kind set \<Rightarrow> event list \<Rightarrow> bool" where
  "mergedAfterResolved R [] = True"
| "mergedAfterResolved R (Resolved b # evs) = mergedAfterResolved (insert b R) evs"
| "mergedAfterResolved R (Mutate b key # evs) = (b \<in> R \<and> mergedAfterResolved R evs)"
| "mergedAfterResolved R (e # evs) = mergedAfterResolved R evs"

text \<open>
  After the response is assigned to the component, no hit is written.
\<close>

fun assignedAfterMerges :: "event list \<Rightarrow> bool" where
  "assignedAfterMerges [] = True"
| "assignedAfterMerges (SetResponse # evs) = (filter isMutate evs = [])"
| "assignedAfterMerges (e # evs) = assignedAfterMerges evs"

text \<open>
  The batches run one after the other: the beta batch is executed only once the v1.0
  batch has resolved (\<open>r\<close>), and once the beta batch has been executed (\<open>x\<close>) no hit is
  written with a v1.0 response.
\<close>

fun betaAfterV1Merge :: "bool \<Rightarrow> bool \<Rightarrow> event list \<Rightarrow> bool" where
  "betaAfterV1Merge r x [] = True"
| "betaAfterV1Merge r x (Resolved V1 # evs) = betaAfterV1Merge True x evs"
| "betaAfterV1Merge r x (ExecuteAll Beta reqs # evs) = (r \<and> betaAfterV1Merge r True evs)"
| "betaAfterV1Merge r x (Mutate V1 key # evs) = (\<not> x \<and> betaAfterV1Merge r x evs)"
| "betaAfterV1Merge r x (e # evs) = betaAfterV1Merge r x evs"

text \<open>
  The specification's words: every write to a hit comes after both batches have resolved.
\<close>

fun mutatedAfterBoth :: "batch_kind set \<Rightarrow> event list \<Rightarrow> bool" where
  "mutatedAfterBoth R [] = True"
| "mutatedAfterBoth R (Resolved b # evs) = mutatedAfterBoth (insert b R) evs"
| "mutatedAfterBoth R (Mutate b key # evs) = (V1 \<in> R \<and> Beta \<in> R \<and> mutatedAfterBoth R evs)"
| "mutatedAfterBoth R (e # evs) = mutatedAfterBoth R evs"

subsection \<open>Concrete inputs\<close>

text \<open>
  Collaborators that give the same answer whatever they are asked, the cache switched
  on and off, and a component with a query.
\<close>

definition mkEnv ::
  "cache_config \<Rightarrow> int \<Rightarrow> (error + response option) \<Rightarrow> (error + response) \<Rightarrow>
   (error + batch_map option) \<Rightarrow> (error + batch_map option) \<Rightarrow> env" where
  "mkEnv cfg t parsed posted v1 beta =
     \<lparr>signedIn = True, config = cfg, now = t, getValueError = None,
      JSON_parse = (\<lambda>s. parsed), stringifyResponse = (\<lambda>r. ''{}''),
      post = (\<lambda>v sc body. posted),
      executeAll = (\<lambda>b reqs. case b of V1 \<Rightarrow> v1 | Beta \<Rightarrow> beta)\<rparr>"

definition cacheOn :: cache_config where
  "cacheOn = \<lparr>isEnabled = True, response_isEnabled = True,
              response_invalidationPeriod = Some 3600000,
              defaultInvalidationPeriod = Some 3600000\<rparr>"

definition cacheWith :: "int option \<Rightarrow> int option \<Rightarrow> cache_config" where
  "cacheWith responsePeriod defaultPeriod =
     \<lparr>isEnabled = True, response_isEnabled = True,
      response_invalidationPeriod = responsePeriod,
      defaultInvalidationPeriod = defaultPeriod\<rparr>"

definition cacheOff :: cache_config where
  "cacheOff = \<lparr>isEnabled = False, response_isEnabled = False,
               response_invalidationPeriod = None, defaultInvalidationPeriod = None\<rparr>"

definition contoso :: component where
  "contoso = initial\<lparr>queryString := Str ''contoso''\<rparr>"

definition contosoCached :: component where
  "contosoCached = contoso\<lparr>cacheEnabled := True\<rparr>"

definition contosoZeroPeriod :: component where
  "contosoZeroPeriod = contosoCached\<lparr>cacheInvalidationPeriod := Some 0\<rparr>"

definition contosoNoPeriod :: component where
  "contosoNoPeriod = contosoCached\<lparr>cacheInvalidationPeriod := None\<rparr>"

definition contosoThumb :: component where
  "contosoThumb = contoso\<lparr>fetchThumbnail := True\<rparr>"

text \<open>
  A search response with the given hits, a component that shows a response, and five
  hits: a site, an empty file, a file, a page, and a file without \<^verbatim>\<open>parentReference\<close>.
\<close>

definition searchOf :: "search_hit list \<Rightarrow> response" where
  "searchOf hs =
     \<lparr>response_value =
        [\<lparr>hitsContainers =
            [\<lparr>hits = Some hs, total = Some (int (length hs)),
              moreResultsAvailable = Some False\<rparr>]\<rparr>]\<rparr>"

definition contosoShown :: component where
  "contosoShown = contoso\<lparr>response := Some (searchOf [])\<rparr>"

definition h_site :: search_hit where
  "h_site =
     \<lparr>hitId = Some ''a'',
      resource = \<lparr>odata_type = Some ''#microsoft.graph.site'', resource_id = Str ''s1'',
                  resource_size = None, webUrl = Some ''https://contoso/sites/hr'',
                  parentReference = None, thumbnail = None\<rparr>\<rparr>"

definition h_empty :: search_hit where
  "h_empty =
     \<lparr>hitId = Some ''b'',
      resource = \<lparr>odata_type = Some DRIVE_ITEM, resource_id = Str ''f0'',
                  resource_size = Some 0, webUrl = Some ''https://contoso/docs/empty.txt'',
                  parentReference = Some \<lparr>siteId = Undefined, driveId = Str ''d1''\<rparr>,
                  thumbnail = None\<rparr>\<rparr>"

definition h_file :: search_hit where
  "h_file =
     \<lparr>hitId = Some ''c'',
      resource = \<lparr>odata_type = Some DRIVE_ITEM, resource_id = Str ''f1'',
                  resource_size = Some 2048, webUrl = Some ''https://contoso/docs/plan.docx'',
                  parentReference = Some \<lparr>siteId = Undefined, driveId = Str ''d1''\<rparr>,
                  thumbnail = None\<rparr>\<rparr>"

definition h_page :: search_hit where
  "h_page =
     \<lparr>hitId = Some ''d'',
      resource = \<lparr>odata_type = Some LIST_ITEM, resource_id = Str ''p1'',
                  resource_size = None, webUrl = Some ''https://contoso/SitePages/home.aspx'',
                  parentReference = Some \<lparr>siteId = Str ''site1'', driveId = Undefined\<rparr>,
                  thumbnail = None\<rparr>\<rparr>"



definition hits3 :: "search_hit list" where
  "hits3 = [h_site, h_empty, h_file]"

definition hits2 :: "search_hit list" where
  "hits2 = [h_file, h_page]"

text \<open>
  The thumbnail requests for the file and for the page, and the answers to them.
\<close>

definition fileRequest :: "string \<Rightarrow> string \<times> string" where
  "fileRequest key = (key, ''/drives/d1/items/f1/thumbnails/0/medium'')"

definition pageRequest :: "string \<Rightarrow> string \<times> string" where
  "pageRequest key = (key, ''/sites/site1/pages/p1'')"

definition answerOf :: "string option \<Rightarrow> string option \<Rightarrow> batch_response" where
  "answerOf u w = \<lparr>content = Some \<lparr>content_url = u, thumbnailWebUrl = w\<rparr>\<rparr>"

definition fileAnswer :: batch_response where
  "fileAnswer = answerOf (Some ''https://thumb/f1'') None"

definition pageAnswer :: batch_response where
  "pageAnswer = answerOf None (Some ''https://thumb/p1'')"

text \<open>
  A cached entry written at time 1000, and the failures of the collaborators.
\<close>

definition cachedEntry :: cache_response where
  "cachedEntry = \<lparr>cached_response = ''{}'', timeCached = 1000\<rparr>"

definition unreachable :: error where
  "unreachable = ExternalError ''503''"

definition v1Down :: error where
  "v1Down = ExternalError ''v1.0 batch''"

definition betaDown :: error where
  "betaDown = ExternalError ''beta batch''"

text \<open>
  The environments of the examples: a cache that holds a response at time \<open>t\<close>, a
  search endpoint that is down, a cache whose payload does not parse, and search
  responses with their two thumbnail batches (answering, or throwing).
\<close>

definition envCached :: "cache_config \<Rightarrow> int \<Rightarrow> env" where
  "envCached cfg t =
     mkEnv cfg t (Inr (Some (searchOf []))) (Inl unreachable) (Inr None) (Inr None)"

definition envDown :: env where
  "envDown = mkEnv cacheOff 0 (Inr None) (Inl unreachable) (Inr None) (Inr None)"

definition envCorrupt :: env where
  "envCorrupt = mkEnv cacheOn 2000 (Inl SyntaxError) (Inr (searchOf [])) (Inr None) (Inr None)"

definition envThumb ::
  "search_hit list \<Rightarrow> (error + batch_map option) \<Rightarrow> (error + batch_map option) \<Rightarrow> env" where
  "envThumb hs v1 beta = mkEnv cacheOff 0 (Inr None) (Inr (searchOf hs)) v1 beta"


definition envV1Down :: env where
  "envV1Down = envThumb hits2 (Inl v1Down) (Inr (Some [(''1'', pageAnswer)]))"


definition envBetaDown :: env where
  "envBetaDown = envThumb hits2 (Inr (Some [(''0'', fileAnswer)])) (Inl betaDown)"

definition envBoth :: env where
  "envBoth = envThumb hits2 (Inr (Some [(''0'', fileAnswer)])) (Inr (Some [(''1'', pageAnswer)]))"

section \<open>Properties\<close>

subsection \<open>The \<^verbatim>\<open>queryString\<close> setter\<close>

text \<open>
  C10. Assigning \<^verbatim>\<open>queryString\<close> a value that differs from the current one (by
  \<^verbatim>\<open>!==\<close>, so \<^verbatim>\<open>null\<close> differs from \<^verbatim>\<open>undefined\<close>) stores it, resets
  \<^verbatim>\<open>currentPage\<close> to 1 and triggers a reload (\<^verbatim>\<open>setLoadingState(true)\<close> and
  \<^verbatim>\<open>requestStateUpdate(true)\<close>); assigning the current value changes nothing and
  triggers nothing.
\<close>

theorem queryString_setter:
  "(queryString c \<noteq> v \<longrightarrow>
      set_queryString v c =
        (c\<lparr>queryString := v, currentPage := 1\<rparr>, [SetLoadingState True, RequestStateUpdate True]) \<and>
      queryString (fst (set_queryString v c)) = v \<and>
      currentPage (fst (set_queryString v c)) = 1) \<and>
   (queryString c = v \<longrightarrow> set_queryString v c = (c, []))"
  by (simp add: set_queryString_def)

theorem queryString_setter_witness:
  "currentPage (fst (set_queryString (Str ''contoso'') (initial\<lparr>currentPage := 4\<rparr>))) = 1 \<and>
   snd (set_queryString (Str ''contoso'') (initial\<lparr>currentPage := 4\<rparr>)) =
     [SetLoadingState True, RequestStateUpdate True] \<and>
   currentPage (fst (set_queryString Null (initial\<lparr>currentPage := 4\<rparr>))) = 1 \<and>
   snd (set_queryString Null (initial\<lparr>currentPage := 4\<rparr>)) =
     [SetLoadingState True, RequestStateUpdate True] \<and>
   set_queryString Undefined (initial\<lparr>currentPage := 4\<rparr>) = (initial\<lparr>currentPage := 4\<rparr>, []) \<and>
   set_queryString (Str ''contoso'') (contoso\<lparr>currentPage := 4\<rparr>) = (contoso\<lparr>currentPage := 4\<rparr>, [])"
  using queryString_setter [of "initial\<lparr>currentPage := 4\<rparr>" "Str ''contoso''"]
    queryString_setter [of "initial\<lparr>currentPage := 4\<rparr>" Null]
    queryString_setter [of "initial\<lparr>currentPage := 4\<rparr>" Undefined]
    queryString_setter [of "contoso\<lparr>currentPage := 4\<rparr>" "Str ''contoso''"]
  by (simp add: initial_def contoso_def)

subsection \<open>The footer\<close>

lemma isLastPage_first:
  "firstHitsContainer (response c) = Some hc \<Longrightarrow>
   isLastPage c = Inr (eqNum (currentPage c) (ceilDiv (total hc) (size_c c)))"
  by (auto simp: firstHitsContainer_def isLastPage_def split: option.splits list.splits)

lemma pagesFromFirst_7:
  "pagingMax c = 7 \<Longrightarrow> pagesFromFirst c 0 [] = [1, 2, 3, 4, 5, 6, 7]"
  by (simp add: pagesFromFirst.simps)

text \<open>
  C8. On page 1, with no more results than fit on one page and the backend not
  signalling more results, paging is not required and \<^verbatim>\<open>renderFooter\<close> renders nothing.
\<close>

theorem single_page_no_footer:
  assumes "currentPage c = 1" and "total hc = Some t" and "t \<le> size_c c"
    and "moreResultsAvailable hc \<noteq> Some True"
  shows "\<not> pagingRequired c (Some hc) \<and> renderFooter c (Some hc) = Inr None"
  using assms by (simp add: pagingRequired_def renderFooter_def)

theorem single_page_no_footer_witness:
  "\<not> pagingRequired initial
       (Some \<lparr>hits = Some [], total = Some 8, moreResultsAvailable = Some False\<rparr>) \<and>
   renderFooter initial
       (Some \<lparr>hits = Some [], total = Some 8, moreResultsAvailable = Some False\<rparr>) = Inr None"
  using single_page_no_footer
    [of initial "\<lparr>hits = Some [], total = Some 8, moreResultsAvailable = Some False\<rparr>" 8]
  by (simp add: initial_def)

text \<open>
  C6, as the code has it. For 95 results, ten to a page, on page 5 with at most seven
  page buttons, the footer holds the previous-page and the next-page control and the
  page buttons 1 to 7: page 1 is the first button of the run, so neither the separate
  first-page button nor the ellipsis is rendered.
\<close>

theorem page5_layout:
  assumes "currentPage c = 5" and "size_c c = 10" and "pagingMax c = 7"
    and "firstHitsContainer (response c) = Some hc"
    and "total hc = Some 95" and "moreResultsAvailable hc \<noteq> Some True"
  shows "renderedFooter c =
     Inr (Some \<lparr>previousPage = True, firstPage = False, pageBackDot = False,
                allPages = [1, 2, 3, 4, 5, 6, 7], nextPage = True\<rparr>)"
proof -
  have paging: "pagingRequired c (Some hc)"
    using assms by (simp add: pagingRequired_def)
  have pages: "getActivePages c (Some 95) = [1, 2, 3, 4, 5, 6, 7]"
    using assms pagesFromFirst_7 [of c] by (simp add: getActivePages_def getFirstPage_def)
  have "next": "renderNextPage c = Inr True"
    using assms isLastPage_first [of c hc] by (simp add: renderNextPage_def ceilDiv_def)
  show ?thesis
    using assms paging pages "next"
    by (simp add: renderedFooter_def renderFooter_def renderFirstPage_def renderPreviousPage_def)
qed

theorem page5_layout_witness:
  "renderedFooter c6 =
     Inr (Some \<lparr>previousPage = True, firstPage = False, pageBackDot = False,
                allPages = [1, 2, 3, 4, 5, 6, 7], nextPage = True\<rparr>)"
  using page5_layout [of c6 hc6]
  by (simp add: c6_def hc6_def initial_def firstHitsContainer_def)

text \<open>
  C6, as the specification words it, fails at that input: the run of page buttons is
  1 to 7, which is not centred on page 5 (four pages before it, two after), and the
  separate first-page button is not rendered.
\<close>

theorem page5_layout_counterexample:
  "renderedFooter c6 =
     Inr (Some \<lparr>previousPage = True, firstPage = False, pageBackDot = False,
                allPages = [1, 2, 3, 4, 5, 6, 7], nextPage = True\<rparr>) \<and>
   \<not> centeredRun 5 [1, 2, 3, 4, 5, 6, 7]"
  by (simp add: renderedFooter_def c6_def hc6_def initial_def renderFooter_def
      firstHitsContainer_def pagingRequired_def getActivePages_def getFirstPage_def
      pagesFromFirst.simps renderNextPage_def isLastPage_def ceilDiv_def renderFirstPage_def
      renderPreviousPage_def centeredRun_def)

subsection \<open>The request key\<close>

lemma getRequestOptions_error [simp]: "getRequestOptions (c\<lparr>error := e\<rparr>) = getRequestOptions c"
  by (simp add: getRequestOptions_def from_c_def getFields_def)

lemma cacheKey_error [simp]: "cacheKey (c\<lparr>error := e\<rparr>) = cacheKey c"
  by (simp add: cacheKey_def)

lemma readCache_error [simp]: "readCache env st (c\<lparr>error := e\<rparr>) key = readCache env st c key"
  by (simp add: readCache_def shouldRetrieveCache_def split: sum.split option.split)

lemma primaryRequest_error [simp]: "primaryRequest env (c\<lparr>error := e\<rparr>) = primaryRequest env c"
  by (simp add: primaryRequest_def requestScopes_def)



text \<open>
  The key of the query \<^verbatim>\<open>contoso\<close> on a component with its defaults, and two objects
  that differ in the order of their members only: their serializations differ.
\<close>

lemma cacheKey_contoso:
  \<open>cacheKey contoso =
     ''{"endpoint":"v1.0/search/query","requestOptions":{"entityTypes":["driveItem","listItem","site"],"query":{"queryString":"contoso"},"size":10}}''\<close>
  by (simp add: cacheKey_def cacheKeyObject_def SEARCH_ENDPOINT_def getRequestOptions_def
      from_c_def getFields_def contoso_def initial_def JSON_stringify_def quoteJSONString_def
      quoteChar_def toString_def toStringNat.simps digitChar_def jsonOfJs_def)

lemma stringify_keeps_member_order:
  "JSON_stringify (JObj [(''a'', JNum 1), (''b'', JNum 2)]) \<noteq>
   JSON_stringify (JObj [(''b'', JNum 2), (''a'', JNum 1)])"
  by (simp add: JSON_stringify_def quoteJSONString_def quoteChar_def toString_def
      toStringNat.simps digitChar_def)

subsection \<open>Decimal ids and array indices\<close>

lemma toStringNat_nonempty: "toStringNat n \<noteq> []"
  by (subst toStringNat.simps) simp

lemma digit_cases:
  "(d::nat) < 10 \<Longrightarrow>
   d = 0 \<or> d = 1 \<or> d = 2 \<or> d = 3 \<or> d = 4 \<or> d = 5 \<or> d = 6 \<or> d = 7 \<or> d = 8 \<or> d = 9"
  by arith

lemma digitChar_inj:
  assumes "d < 10" and "e < 10" and "digitChar d = digitChar e"
  shows "d = e"
  using digit_cases [OF assms(1)] digit_cases [OF assms(2)] assms(3)
  by (elim disjE) (simp_all add: digitChar_def)

lemma toStringNat_inj: "toStringNat m = toStringNat n \<Longrightarrow> m = n"
proof (induction m arbitrary: n rule: toStringNat.induct)
  case (1 m)
  show ?case
  proof (cases "m < 10")
    case small_m: True
    then have m: "toStringNat m = [digitChar m]"
      by (subst toStringNat.simps) simp
    show ?thesis
    proof (cases "n < 10")
      case True
      then have "toStringNat n = [digitChar n]"
        by (subst toStringNat.simps) simp
      with m "1.prems" have "digitChar m = digitChar n" by simp
      with small_m True show ?thesis by (rule digitChar_inj)
    next
      case False
      then have "toStringNat n = toStringNat (n div 10) @ [digitChar (n mod 10)]"
        by (subst toStringNat.simps) simp
      with m "1.prems" have "toStringNat (n div 10) = []" by simp
      with toStringNat_nonempty show ?thesis by blast
    qed
  next
    case big_m: False
    then have m: "toStringNat m = toStringNat (m div 10) @ [digitChar (m mod 10)]"
      by (subst toStringNat.simps) simp
    show ?thesis
    proof (cases "n < 10")
      case True
      then have "toStringNat n = [digitChar n]"
        by (subst toStringNat.simps) simp
      with m "1.prems" have "toStringNat (m div 10) = []" by simp
      with toStringNat_nonempty show ?thesis by blast
    next
      case False
      then have "toStringNat n = toStringNat (n div 10) @ [digitChar (n mod 10)]"
        by (subst toStringNat.simps) simp
      with m "1.prems" have eq: "toStringNat (m div 10) = toStringNat (n div 10)"
        and dg: "digitChar (m mod 10) = digitChar (n mod 10)" by simp_all
      from "1.IH" [OF big_m eq] have q: "m div 10 = n div 10" .
      have "m mod 10 = n mod 10"
        by (rule digitChar_inj [OF _ _ dg]) simp_all
      with q show ?thesis by (metis div_mult_mod_eq)
    qed
  qed
qed

lemma toString_index_inj: "toString (int i) = toString (int j) \<Longrightarrow> i = j"
  by (simp add: toString_def toStringNat_inj)


lemma arrayIndex_toString: "i < length xs \<Longrightarrow> arrayIndex xs (toString (int i)) = Some i"
  unfolding arrayIndex_def find_Some_iff
  by (rule exI [of _ i]) (auto dest: toString_index_inj)

lemma arrayIndex_length: "length xs = length ys \<Longrightarrow> arrayIndex xs key = arrayIndex ys key"
  by (simp add: arrayIndex_def)

lemma arrayIndex_update [simp]: "arrayIndex (hs[j := x]) key = arrayIndex hs key"
  by (simp add: arrayIndex_def)

lemma toString_digits:
  "toString 0 = ''0''" "toString 1 = ''1''" "toString 2 = ''2''"
  by (simp_all add: toString_def toStringNat.simps digitChar_def)

subsection \<open>Merging the batch responses\<close>

lemma withThumbnail_type [simp]: "odata_type (resource (withThumbnail t h)) = odata_type (resource h)"
  by (simp add: withThumbnail_def)

lemma withThumbnail_thumbnail [simp]: "thumbnail (resource (withThumbnail t h)) = Some t"
  by (simp add: withThumbnail_def)

lemma augmentEach_length [simp]: "length (fst (augmentEach b m hs)) = length hs"
  by (induction m arbitrary: hs) (auto simp: split_beta split: option.split)


lemma update_type [simp]:
  "odata_type (resource (hs[j := withThumbnail t (hs ! j)] ! i)) = odata_type (resource (hs ! i))"
  by (cases "j < length hs") (simp_all add: nth_list_update list_update_beyond)




lemma augmentEach_events: "list_all (isMutateOf b) (snd (snd (augmentEach b m hs)))"
  by (induction m arbitrary: hs) (auto simp: split_beta split: option.split)

lemma augmentResponse_entries: "augmentResponse b m hs = augmentEach b (entries m) hs"
  by (cases m) (auto simp: augmentResponse_def entries_def)

subsection \<open>The thumbnail requests\<close>





subsection \<open>The two batches\<close>




lemma thumbnailTry_events:
  "\<exists>ev1 ev2. list_all (isMutateOf V1) ev1 \<and> list_all (isMutateOf Beta) ev2 \<and>
     (snd (thumbnailTry env b1 b2 hs) = [ExecuteAll V1 b1, Rejected V1] \<or>
      snd (thumbnailTry env b1 b2 hs) = [ExecuteAll V1 b1, Resolved V1] @ ev1 \<or>
      snd (thumbnailTry env b1 b2 hs) =
        [ExecuteAll V1 b1, Resolved V1] @ ev1 @ [ExecuteAll Beta b2, Rejected Beta] \<or>
      snd (thumbnailTry env b1 b2 hs) =
        [ExecuteAll V1 b1, Resolved V1] @ ev1 @ [ExecuteAll Beta b2, Resolved Beta] @ ev2)"
proof (cases "executeAll env V1 b1")
  case (Inl e)
  then show ?thesis
    by (intro exI [of _ "[]"]) (simp add: thumbnailTry_def)
next
  case m1: (Inr m1)
  obtain hs1 err1 ev1 where a1: "augmentEach V1 (entries m1) hs = (hs1, err1, ev1)"
    by (cases "augmentEach V1 (entries m1) hs") auto
  have e1: "list_all (isMutateOf V1) ev1"
    using augmentEach_events [of V1 "entries m1" hs] a1 by simp
  show ?thesis
  proof (cases err1)
    case (Some e)
    then have "snd (thumbnailTry env b1 b2 hs) = [ExecuteAll V1 b1, Resolved V1] @ ev1"
      by (simp add: thumbnailTry_def augmentResponse_entries m1 a1)
    with e1 show ?thesis by (intro exI [of _ ev1] exI [of _ "[]"]) simp
  next
    case None
    show ?thesis
    proof (cases "executeAll env Beta b2")
      case (Inl e)
      then have "snd (thumbnailTry env b1 b2 hs) =
          [ExecuteAll V1 b1, Resolved V1] @ ev1 @ [ExecuteAll Beta b2, Rejected Beta]"
        by (simp add: thumbnailTry_def augmentResponse_entries m1 a1 None)
      with e1 show ?thesis by (intro exI [of _ ev1] exI [of _ "[]"]) simp
    next
      case m2: (Inr m2)
      obtain hs2 err2 ev2 where a2: "augmentEach Beta (entries m2) hs1 = (hs2, err2, ev2)"
        by (cases "augmentEach Beta (entries m2) hs1") auto
      have e2: "list_all (isMutateOf Beta) ev2"
        using augmentEach_events [of Beta "entries m2" hs1] a2 by simp
      have "snd (thumbnailTry env b1 b2 hs) =
          [ExecuteAll V1 b1, Resolved V1] @ ev1 @ [ExecuteAll Beta b2, Resolved Beta] @ ev2"
        by (simp add: thumbnailTry_def augmentResponse_entries m1 a1 None m2 a2)
      with e1 e2 show ?thesis by (intro exI [of _ ev1] exI [of _ ev2]) simp
    qed
  qed
qed


lemma firstHits_setHits: "firstHits r = Inr hs \<Longrightarrow> firstHits (setHits r hs') = Inr hs'"
  by (auto simp: firstHits_def setHits_def split: list.splits option.splits)

lemma setHits_same: "firstHits r = Inr hs \<Longrightarrow> setHits r hs = r"
  by (auto simp: firstHits_def setHits_def split: list.splits option.splits)

lemma fetchThumbnails_tried:
  assumes "firstHits r0 = Inr hs" and "thumbnailRequests 0 hs ([], []) = Inr (b1, b2)"
  shows "fetchThumbnails env r0 =
     (Inr (setHits r0 (fst (thumbnailTry env b1 b2 hs))), snd (thumbnailTry env b1 b2 hs))"
  using assms by (simp add: fetchThumbnails_def split_beta)

subsection \<open>The paths of \<^verbatim>\<open>loadState\<close>\<close>

lemma posts_Nil [simp]: "posts [] = []"
  by (simp add: posts_def)

lemma posts_Cons [simp]: "posts (e # evs) = (if isPost e then e # posts evs else posts evs)"
  by (simp add: posts_def)

lemma posts_append [simp]: "posts (xs @ ys) = posts xs @ posts ys"
  by (simp add: posts_def)

lemma posts_mutations: "list_all (isMutateOf b) evs \<Longrightarrow> posts evs = []"
proof (induction evs)
  case Nil
  then show ?case by simp
next
  case (Cons e evs)
  then show ?case by (cases e) simp_all
qed

lemma posts_thumbnailTry [simp]: "posts (snd (thumbnailTry env b1 b2 hs)) = []"
proof -
  from thumbnailTry_events [of env b1 b2 hs]
  obtain ev1 ev2 where "list_all (isMutateOf V1) ev1" and "list_all (isMutateOf Beta) ev2"
    and "snd (thumbnailTry env b1 b2 hs) = [ExecuteAll V1 b1, Rejected V1] \<or>
      snd (thumbnailTry env b1 b2 hs) = [ExecuteAll V1 b1, Resolved V1] @ ev1 \<or>
      snd (thumbnailTry env b1 b2 hs) =
        [ExecuteAll V1 b1, Resolved V1] @ ev1 @ [ExecuteAll Beta b2, Rejected Beta] \<or>
      snd (thumbnailTry env b1 b2 hs) =
        [ExecuteAll V1 b1, Resolved V1] @ ev1 @ [ExecuteAll Beta b2, Resolved Beta] @ ev2"
    by blast
  then show ?thesis
    by (elim disjE) (simp_all add: posts_mutations)
qed

lemma posts_thumbnails [simp]: "posts (snd (fetchThumbnails env r)) = []"
  by (simp add: fetchThumbnails_def split_beta split: sum.split)

lemma readCache_entry:
  assumes "shouldRetrieveCache env c" and "getValueError env = None" and "st key = Some entry"
  shows "readCache env st c key =
     (if greaterThan_js (getResponseInvalidationTime (config env) (cacheInvalidationPeriod c))
           (now env - timeCached entry)
      then JSON_parse env (cached_response entry) else Inr None, [GetValue key])"
  using assms by (simp add: readCache_def shouldRetrieveCache_def getValue_def)

lemma readCache_absent:
  assumes "shouldRetrieveCache env c" and "getValueError env = None" and "st key = None"
  shows "readCache env st c key = (Inr None, [GetValue key])"
  using assms by (simp add: readCache_def shouldRetrieveCache_def getValue_def)

lemma readCache_events: "snd (readCache env st c key) = [] \<or> snd (readCache env st c key) = [GetValue key]"
  by (simp add: readCache_def split: sum.split option.split)

lemma fetchResponse_store:
  "snd (fst (fetchResponse env st c key ro)) = snd (fst (fetchResponse env st' c key ro)) \<and>
   snd (fetchResponse env st c key ro) = snd (fetchResponse env st' c key ro)"
  by (simp add: fetchResponse_def Let_def split: sum.splits prod.splits)

lemma shouldUpdateCache_simps [simp]:
  "shouldUpdateCache env (c\<lparr>error := e\<rparr>) = shouldUpdateCache env c"
  "shouldUpdateCache env (c\<lparr>response := r\<rparr>) = shouldUpdateCache env c"
  by (simp_all add: shouldUpdateCache_def)

lemma shouldUpdateCache_assign [simp]:
  "shouldUpdateCache env (fst (assignResponse c r)) = shouldUpdateCache env c"
  by (simp add: assignResponse_def)

lemma assignResponse_response [simp]: "response (fst (assignResponse c r)) = Some r"
  by (simp add: assignResponse_def)

lemma assignResponse_again [simp]:
  "assignResponse (fst (assignResponse c r)) r = (fst (assignResponse c r), [])"
  by (simp add: assignResponse_def)

lemma assignResponse_events: "snd (assignResponse c r) = [] \<or> snd (assignResponse c r) = [SetResponse]"
  by (simp add: assignResponse_def)

lemma posts_assignResponse [simp]: "posts (snd (assignResponse c r)) = []"
  by (simp add: assignResponse_def)

lemma posts_readCache [simp]: "posts (snd (readCache env st c key)) = []"
  by (simp add: readCache_def split: sum.split option.split)

lemma loadBody_cache_throws:
  assumes "fst (readCache env st c (cacheKey c)) = Inl e"
  shows "loadBody env st c = ((st, c, snd (readCache env st c (cacheKey c))), Some e)"
  using assms
  by (cases "readCache env st c (cacheKey c)") (simp add: loadBody_def cacheKey_def Let_def)

lemma loadBody_cached:
  assumes "fst (readCache env st c (cacheKey c)) = Inr (Some r)"
  shows "loadBody env st c =
     ((st, fst (assignResponse c r),
       snd (readCache env st c (cacheKey c)) @ snd (assignResponse c r)), None)"
  using assms
  by (cases "readCache env st c (cacheKey c)")
     (simp add: loadBody_def cacheKey_def Let_def split_beta)

lemma loadBody_post_fails:
  assumes "fst (readCache env st c (cacheKey c)) = Inr None"
    and "primaryRequest env c = Inl e"
  shows "loadBody env st c =
     ((st, c, snd (readCache env st c (cacheKey c)) @
              [Post (version c) (requestScopes c) (searchBody (getRequestOptions c))]), Some e)"
  using assms
  by (cases "readCache env st c (cacheKey c)")
     (simp add: loadBody_def cacheKey_def Let_def fetchResponse_def primaryRequest_def)

lemma loadBody_thumbnails_throw:
  assumes "fst (readCache env st c (cacheKey c)) = Inr None"
    and "primaryRequest env c = Inr r0" and "fetchThumbnail c"
    and "fetchThumbnails env r0 = (Inl e, ev1)"
  shows "loadBody env st c =
     ((st, c, snd (readCache env st c (cacheKey c)) @
              [Post (version c) (requestScopes c) (searchBody (getRequestOptions c))] @ ev1), Some e)"
  using assms
  by (cases "readCache env st c (cacheKey c)")
     (simp add: loadBody_def cacheKey_def Let_def fetchResponse_def primaryRequest_def)

lemma loadBody_fetched:
  assumes "fst (readCache env st c (cacheKey c)) = Inr None"
    and "primaryRequest env c = Inr r0"
    and "(if fetchThumbnail c then fetchThumbnails env r0 else (Inr r0, [])) = (Inr r, ev1)"
  shows "loadBody env st c =
     ((if shouldUpdateCache env c then putValue env st (cacheKey c) (stringifyResponse env r) else st,
       fst (assignResponse c r),
       snd (readCache env st c (cacheKey c)) @
       [Post (version c) (requestScopes c) (searchBody (getRequestOptions c))] @ ev1 @
       snd (assignResponse c r) @
       (if shouldUpdateCache env c then [PutValue (cacheKey c) (stringifyResponse env r)] else [])),
      None)"
  using assms
  by (cases "readCache env st c (cacheKey c)")
     (simp add: loadBody_def cacheKey_def Let_def fetchResponse_def primaryRequest_def split_beta)

lemma loadState_thrown:
  assumes "signedIn env" and "truthyJs (queryString c)"
    and "loadBody env st (c\<lparr>error := None\<rparr>) = ((st1, c1, ev), Some e)"
  shows "loadState env st c =
     (st1, c1\<lparr>error := if response c1 \<noteq> None then None else Some e, isRefreshing := False\<rparr>,
      ev @ [FireDataChange])"
  using assms by (simp add: loadState_def Let_def)

lemma loadState_done:
  assumes "signedIn env" and "truthyJs (queryString c)"
    and "loadBody env st (c\<lparr>error := None\<rparr>) = ((st1, c1, ev), None)"
  shows "loadState env st c =
     (st1, (if response c1 \<noteq> None then c1\<lparr>error := None\<rparr> else c1)\<lparr>isRefreshing := False\<rparr>,
      ev @ [FireDataChange])"
  using assms by (simp add: loadState_def Let_def)

lemma loadBody_key:
  "loadBody env st c =
     (case readCache env st c (cacheKey c) of
        (Inl e, ev) \<Rightarrow> ((st, c, ev), Some e)
      | (Inr (Some r), ev) \<Rightarrow>
          (case assignResponse c r of (c1, ev1) \<Rightarrow> ((st, c1, ev @ ev1), None))
      | (Inr None, ev) \<Rightarrow>
          (case fetchResponse env st c (cacheKey c) (getRequestOptions c) of
             ((st1, c1, ev1), Inl e) \<Rightarrow> ((st1, c1, ev @ ev1), Some e)
           | ((st1, c1, ev1), Inr r) \<Rightarrow>
               (case assignResponse c1 r of (c2, ev2) \<Rightarrow> ((st1, c2, ev @ ev1 @ ev2), None))))"
  unfolding loadBody_def cacheKey_def Let_def ..

lemma loadBody_store:
  assumes "readCache env st c (cacheKey c) = readCache env st' c (cacheKey c)"
  shows "snd (fst (loadBody env st c)) = snd (fst (loadBody env st' c)) \<and>
         snd (loadBody env st c) = snd (loadBody env st' c)"
proof -
  obtain x ev where rc: "readCache env st' c (cacheKey c) = (x, ev)"
    by (cases "readCache env st' c (cacheKey c)")
  obtain s1 c1 e1 y where f1:
    "fetchResponse env st c (cacheKey c) (getRequestOptions c) = ((s1, c1, e1), y)"
    by (cases "fetchResponse env st c (cacheKey c) (getRequestOptions c)") auto
  obtain s2 c2 e2 y2 where f2:
    "fetchResponse env st' c (cacheKey c) (getRequestOptions c) = ((s2, c2, e2), y2)"
    by (cases "fetchResponse env st' c (cacheKey c) (getRequestOptions c)") auto
  from fetchResponse_store [of env st c "cacheKey c" "getRequestOptions c" st'] f1 f2
  have same: "c2 = c1" "e2 = e1" "y2 = y" by simp_all
  show ?thesis
    unfolding loadBody_key assms rc f1 f2 same
    by (simp add: split_beta split: sum.split option.split)
qed

lemma loadState_store:
  assumes "readCache env st c (cacheKey c) = readCache env st' c (cacheKey c)"
  shows "snd (loadState env st c) = snd (loadState env st' c)"
proof -
  have "readCache env st (c\<lparr>error := None\<rparr>) (cacheKey (c\<lparr>error := None\<rparr>)) =
        readCache env st' (c\<lparr>error := None\<rparr>) (cacheKey (c\<lparr>error := None\<rparr>))"
    using assms by simp
  from loadBody_store [OF this]
  have same: "snd (fst (loadBody env st (c\<lparr>error := None\<rparr>))) =
              snd (fst (loadBody env st' (c\<lparr>error := None\<rparr>)))"
    "snd (loadBody env st (c\<lparr>error := None\<rparr>)) = snd (loadBody env st' (c\<lparr>error := None\<rparr>))"
    by simp_all
  obtain s1 c1 ev1 t1 where b1: "loadBody env st (c\<lparr>error := None\<rparr>) = ((s1, c1, ev1), t1)"
    by (cases "loadBody env st (c\<lparr>error := None\<rparr>)") auto
  obtain s2 c2 ev2 t2 where b2: "loadBody env st' (c\<lparr>error := None\<rparr>) = ((s2, c2, ev2), t2)"
    by (cases "loadBody env st' (c\<lparr>error := None\<rparr>)") auto
  from same b1 b2 have "c2 = c1" "ev2 = ev1" "t2 = t1" by simp_all
  then show ?thesis
    by (simp add: loadState_def Let_def b1 b2)
qed

lemma loadState_cached:
  assumes "signedIn env" and "truthyJs (queryString c)"
    and "fst (readCache env st c (cacheKey c)) = Inr (Some r)"
  shows "loadState env st c =
     (st, (fst (assignResponse (c\<lparr>error := None\<rparr>) r))\<lparr>error := None, isRefreshing := False\<rparr>,
      snd (readCache env st c (cacheKey c)) @ snd (assignResponse (c\<lparr>error := None\<rparr>) r) @
      [FireDataChange])"
  using loadState_done [OF assms(1,2) loadBody_cached [of env st "c\<lparr>error := None\<rparr>" r]] assms(3)
  by simp

lemma loadState_cache_throws:
  assumes "signedIn env" and "truthyJs (queryString c)"
    and "fst (readCache env st c (cacheKey c)) = Inl e"
  shows "loadState env st c =
     (st, c\<lparr>error := if response c \<noteq> None then None else Some e, isRefreshing := False\<rparr>,
      snd (readCache env st c (cacheKey c)) @ [FireDataChange])"
  using loadState_thrown [OF assms(1,2) loadBody_cache_throws [of env st "c\<lparr>error := None\<rparr>" e]]
    assms(3)
  by simp

lemma loadState_post_fails:
  assumes "signedIn env" and "truthyJs (queryString c)"
    and "fst (readCache env st c (cacheKey c)) = Inr None"
    and "primaryRequest env c = Inl e"
  shows "loadState env st c =
     (st, c\<lparr>error := if response c \<noteq> None then None else Some e, isRefreshing := False\<rparr>,
      snd (readCache env st c (cacheKey c)) @
      [Post (version c) (requestScopes c) (searchBody (getRequestOptions c)), FireDataChange])"
  using loadState_thrown [OF assms(1,2) loadBody_post_fails [of env st "c\<lparr>error := None\<rparr>" e]]
    assms(3,4)
  by (simp add: requestScopes_def)

lemma loadState_fetched:
  assumes "signedIn env" and "truthyJs (queryString c)"
    and "fst (readCache env st c (cacheKey c)) = Inr None"
    and "primaryRequest env c = Inr r0"
    and "(if fetchThumbnail c then fetchThumbnails env r0 else (Inr r0, [])) = (Inr r, ev1)"
  shows "loadState env st c =
     (if shouldUpdateCache env c then putValue env st (cacheKey c) (stringifyResponse env r) else st,
      (fst (assignResponse (c\<lparr>error := None\<rparr>) r))\<lparr>error := None, isRefreshing := False\<rparr>,
      snd (readCache env st c (cacheKey c)) @
      [Post (version c) (requestScopes c) (searchBody (getRequestOptions c))] @ ev1 @
      snd (assignResponse (c\<lparr>error := None\<rparr>) r) @
      (if shouldUpdateCache env c then [PutValue (cacheKey c) (stringifyResponse env r)] else []) @
      [FireDataChange])"
  using loadState_done [OF assms(1,2) loadBody_fetched [of env st "c\<lparr>error := None\<rparr>" r0 r ev1]]
    assms(3,4,5)
  by (simp add: requestScopes_def)

lemma loadState_thumbnails_throw:
  assumes "signedIn env" and "truthyJs (queryString c)"
    and "fst (readCache env st c (cacheKey c)) = Inr None"
    and "primaryRequest env c = Inr r0" and "fetchThumbnail c"
    and "fetchThumbnails env r0 = (Inl e, ev1)"
  shows "loadState env st c =
     (st, c\<lparr>error := if response c \<noteq> None then None else Some e, isRefreshing := False\<rparr>,
      snd (readCache env st c (cacheKey c)) @
      [Post (version c) (requestScopes c) (searchBody (getRequestOptions c))] @ ev1 @
      [FireDataChange])"
  using loadState_thrown
      [OF assms(1,2) loadBody_thumbnails_throw [of env st "c\<lparr>error := None\<rparr>" r0 e ev1]]
    assms(3,4,5,6)
  by (simp add: requestScopes_def)

lemma posts_loadState_fetch:
  assumes "signedIn env" and "truthyJs (queryString c)"
    and "fst (readCache env st c (cacheKey c)) = Inr None"
  shows "posts (eventsAfter env st c) =
           [Post (version c) (requestScopes c) (searchBody (getRequestOptions c))]"
proof (cases "primaryRequest env c")
  case (Inl e)
  then show ?thesis
    using loadState_post_fails [OF assms Inl] by (simp add: eventsAfter_def)
next
  case (Inr r0)
  obtain x ev1 where step:
    "(if fetchThumbnail c then fetchThumbnails env r0 else (Inr r0, [])) = (x, ev1)"
    by (cases "(if fetchThumbnail c then fetchThumbnails env r0 else (Inr r0, []))") auto
  have "ev1 = (if fetchThumbnail c then snd (fetchThumbnails env r0) else [])"
    using step by (auto split: if_splits)
  then have ev1: "posts ev1 = []" by simp
  show ?thesis
  proof (cases x)
    case (Inl e)
    with step have "fetchThumbnail c" and "fetchThumbnails env r0 = (Inl e, ev1)"
      by (auto split: if_splits)
    from loadState_thumbnails_throw [OF assms Inr this] ev1 show ?thesis
      by (simp add: eventsAfter_def)
  next
    case r: (Inr r)
    from loadState_fetched [OF assms Inr step [unfolded r]] ev1 show ?thesis
      by (simp add: eventsAfter_def)
  qed
qed

lemma loadState_thumbnails:
  assumes "signedIn env" and "truthyJs (queryString c)"
    and "fst (readCache env st c (cacheKey c)) = Inr None"
    and "primaryRequest env c = Inr r0" and "fetchThumbnail c"
    and "firstHits r0 = Inr hs" and "thumbnailRequests 0 hs ([], []) = Inr (b1, b2)"
  shows "loadState env st c =
     (if shouldUpdateCache env c
      then putValue env st (cacheKey c)
             (stringifyResponse env (setHits r0 (fst (thumbnailTry env b1 b2 hs))))
      else st,
      (fst (assignResponse (c\<lparr>error := None\<rparr>) (setHits r0 (fst (thumbnailTry env b1 b2 hs)))))
        \<lparr>error := None, isRefreshing := False\<rparr>,
      snd (readCache env st c (cacheKey c)) @
      [Post (version c) (requestScopes c) (searchBody (getRequestOptions c))] @
      snd (thumbnailTry env b1 b2 hs) @
      snd (assignResponse (c\<lparr>error := None\<rparr>) (setHits r0 (fst (thumbnailTry env b1 b2 hs)))) @
      (if shouldUpdateCache env c
       then [PutValue (cacheKey c)
               (stringifyResponse env (setHits r0 (fst (thumbnailTry env b1 b2 hs))))]
       else []) @
      [FireDataChange])"
proof -
  have "(if fetchThumbnail c then fetchThumbnails env r0 else (Inr r0, [])) =
      (Inr (setHits r0 (fst (thumbnailTry env b1 b2 hs))), snd (thumbnailTry env b1 b2 hs))"
    using assms(5) fetchThumbnails_tried [OF assms(6,7), of env] by simp
  from loadState_fetched [OF assms(1,2,3,4) this] show ?thesis .
qed

lemma after_thumbnails:
  assumes "signedIn env" and "truthyJs (queryString c)"
    and "fst (readCache env st c (cacheKey c)) = Inr None"
    and "primaryRequest env c = Inr r0" and "fetchThumbnail c"
    and "firstHits r0 = Inr hs" and "thumbnailRequests 0 hs ([], []) = Inr (b1, b2)"
  shows "error (componentAfter env st c) = None"
    and "response (componentAfter env st c) = Some (setHits r0 (fst (thumbnailTry env b1 b2 hs)))"
    and "hitsAfter env st c = Inr (fst (thumbnailTry env b1 b2 hs))"
    and "eventsAfter env st c =
           snd (readCache env st c (cacheKey c)) @
           [Post (version c) (requestScopes c) (searchBody (getRequestOptions c))] @
           snd (thumbnailTry env b1 b2 hs) @
           snd (assignResponse (c\<lparr>error := None\<rparr>) (setHits r0 (fst (thumbnailTry env b1 b2 hs)))) @
           (if shouldUpdateCache env c
            then [PutValue (cacheKey c)
                    (stringifyResponse env (setHits r0 (fst (thumbnailTry env b1 b2 hs))))]
            else []) @
           [FireDataChange]"
  using loadState_thumbnails [OF assms] firstHits_setHits [OF assms(6)]
  by (simp_all add: componentAfter_def hitsAfter_def eventsAfter_def)

subsection \<open>The examples\<close>

lemma envDown_facts:
  "signedIn envDown" "truthyJs (queryString contoso)" "truthyJs (queryString contosoShown)"
  "fst (readCache envDown Map.empty c key) = Inr None"
  "primaryRequest envDown c = Inl unreachable"
  by (simp_all add: envDown_def mkEnv_def cacheOff_def contoso_def contosoShown_def truthyJs_def
      readCache_def shouldRetrieveCache_def getIsResponseCacheEnabled_def primaryRequest_def)

lemma envCorrupt_facts:
  "signedIn envCorrupt" "truthyJs (queryString contosoCached)"
  "shouldRetrieveCache envCorrupt contosoCached"
  "getValueError envCorrupt = None"
  "greaterThan_js (getResponseInvalidationTime (config envCorrupt)
      (cacheInvalidationPeriod contosoCached)) (now envCorrupt - timeCached cachedEntry)"
  "JSON_parse envCorrupt s = Inl SyntaxError"
  "primaryRequest envCorrupt c = Inr (searchOf [])"
  "response contosoCached = None" "\<not> fetchThumbnail contosoCached"
  by (simp_all add: envCorrupt_def mkEnv_def cacheOn_def contosoCached_def contoso_def initial_def
      cachedEntry_def truthyJs_def shouldRetrieveCache_def getIsResponseCacheEnabled_def
      getResponseInvalidationTime_def truthyNum_def greaterThan_js_def primaryRequest_def)

lemma envThumb_facts:
  "signedIn (envThumb hs v1 beta)" "truthyJs (queryString contosoThumb)"
  "fst (readCache (envThumb hs v1 beta) st contosoThumb key) = Inr None"
  "snd (readCache (envThumb hs v1 beta) st contosoThumb key) = []"
  "primaryRequest (envThumb hs v1 beta) c = Inr (searchOf hs)"
  "fetchThumbnail contosoThumb" "firstHits (searchOf hs) = Inr hs"
  "executeAll (envThumb hs v1 beta) V1 reqs = v1"
  "executeAll (envThumb hs v1 beta) Beta reqs = beta"
  "\<not> shouldUpdateCache (envThumb hs v1 beta) c"
  "response contosoThumb = None"
  by (simp_all add: envThumb_def mkEnv_def cacheOff_def contosoThumb_def contoso_def initial_def
      truthyJs_def readCache_def shouldRetrieveCache_def shouldUpdateCache_def
      getIsResponseCacheEnabled_def primaryRequest_def firstHits_def searchOf_def)


lemma requests_hits2:
  "thumbnailRequests 0 hits2 ([], []) = Inr ([fileRequest ''0''], [pageRequest ''1''])"
  by (simp add: hits2_def h_file_def h_page_def eligible_def endsWith_def
      DRIVE_ITEM_def LIST_ITEM_def tmpl_def fileRequest_def pageRequest_def toString_digits)

lemma arrayIndex_hits:
  "arrayIndex hits2 ''0'' = Some 0" "arrayIndex hits2 ''1'' = Some 1"
  "arrayIndex hits3 ''2'' = Some 2"
  using arrayIndex_toString [of 0 hits2] arrayIndex_toString [of 1 hits2]
    arrayIndex_toString [of 2 hits3]
  by (simp_all add: hits2_def hits3_def toString_digits)

lemma merge_file:
  "augmentResponse V1 (Some [(''0'', fileAnswer)]) hits2 =
     ([withThumbnail \<lparr>url = Some ''https://thumb/f1''\<rparr> h_file, h_page], None, [Mutate V1 ''0''])"
  using arrayIndex_hits(1)
  by (simp add: augmentResponse_def fileAnswer_def answerOf_def thumbnailOf_def)
     (simp add: hits2_def h_file_def DRIVE_ITEM_def LIST_ITEM_def)

lemma merge_page:
  "augmentResponse Beta (Some [(''1'', pageAnswer)])
     [withThumbnail \<lparr>url = Some ''https://thumb/f1''\<rparr> h_file, h_page] =
     ([withThumbnail \<lparr>url = Some ''https://thumb/f1''\<rparr> h_file,
       withThumbnail \<lparr>url = Some ''https://thumb/p1''\<rparr> h_page], None, [Mutate Beta ''1''])"
proof -
  have "arrayIndex [withThumbnail \<lparr>url = Some ''https://thumb/f1''\<rparr> h_file, h_page] ''1'' = Some 1"
    using arrayIndex_hits(2)
      arrayIndex_length [of "[withThumbnail \<lparr>url = Some ''https://thumb/f1''\<rparr> h_file, h_page]" hits2]
    by (simp add: hits2_def)
  then show ?thesis
    by (simp add: augmentResponse_def pageAnswer_def answerOf_def thumbnailOf_def)
       (simp add: h_page_def)
qed

lemma events_both:
  "eventsAfter envBoth Map.empty contosoThumb =
     [Post (version contosoThumb) (requestScopes contosoThumb)
        (searchBody (getRequestOptions contosoThumb)),
      ExecuteAll V1 [fileRequest ''0''], Resolved V1, Mutate V1 ''0'',
      ExecuteAll Beta [pageRequest ''1''], Resolved Beta, Mutate Beta ''1'',
      SetResponse, FireDataChange]"
proof -
  have tried: "snd (thumbnailTry envBoth [fileRequest ''0''] [pageRequest ''1''] hits2) =
      [ExecuteAll V1 [fileRequest ''0''], Resolved V1, Mutate V1 ''0'',
       ExecuteAll Beta [pageRequest ''1''], Resolved Beta, Mutate Beta ''1'']"
    by (simp add: thumbnailTry_def envBoth_def envThumb_facts merge_file merge_page)
  show ?thesis
    using after_thumbnails(4)
        [of envBoth contosoThumb Map.empty "searchOf hits2" hits2 "[fileRequest ''0'']"
            "[pageRequest ''1'']",
         unfolded envBoth_def, OF envThumb_facts(1,2,3,5,6,7) requests_hits2,
         folded envBoth_def] tried
    by (simp add: envBoth_def envThumb_facts assignResponse_def)
qed

subsection \<open>The cache\<close>

lemma getResponseInvalidationTime_fallback:
  "getResponseInvalidationTime cfg (Some n) =
     (if n \<noteq> 0 then Some n else getResponseInvalidationTime cfg None)"
  "getResponseInvalidationTime cfg None =
     (case response_invalidationPeriod cfg of
        Some k \<Rightarrow> if k \<noteq> 0 then Some k else defaultInvalidationPeriod cfg
      | None \<Rightarrow> defaultInvalidationPeriod cfg)"
  by (simp_all add: getResponseInvalidationTime_def truthyNum_def split: option.split)

text \<open>
  C2. The invalidation period \<open>P\<close> is the component's \<^verbatim>\<open>cacheInvalidationPeriod\<close>, or
  when that is zero or undefined the global response period, or when that is zero or
  undefined too the global default; it is what \<^verbatim>\<open>getResponseInvalidationTime\<close> returns.
  With the cache read enabled, an entry for the key in the store and a payload that
  parses to a response, the cached response is used exactly when
  \<open>now - timeCached < P\<close>. A fresh entry becomes the response of the component and
  nothing is posted. Once \<open>now - timeCached \<ge> P\<close> the read gives what it gives with no
  entry, and \<^verbatim>\<open>loadState\<close> leaves the same component and makes the same calls as with
  the entry absent: the primary request is posted.
\<close>

theorem cached_response_used_iff_fresh:
  assumes "signedIn env" and "truthyJs (queryString c)" and "shouldRetrieveCache env c"
    and "getValueError env = None" and "st (cacheKey c) = Some entry"
    and "JSON_parse env (cached_response entry) = Inr (Some r)"
    and "(if truthyNum (cacheInvalidationPeriod c) then cacheInvalidationPeriod c
          else if truthyNum (response_invalidationPeriod (config env))
               then response_invalidationPeriod (config env)
               else defaultInvalidationPeriod (config env)) = Some P"
  shows "getResponseInvalidationTime (config env) (cacheInvalidationPeriod c) = Some P \<and>
         (fst (readCache env st c (cacheKey c)) = Inr (Some r) \<longleftrightarrow>
            now env - timeCached entry < P) \<and>
         (now env - timeCached entry < P \<longrightarrow>
            response (componentAfter env st c) = Some r \<and> posts (eventsAfter env st c) = []) \<and>
         (P \<le> now env - timeCached entry \<longrightarrow>
            readCache env st c (cacheKey c) =
              readCache env (st(cacheKey c := None)) c (cacheKey c) \<and>
            componentAfter env st c = componentAfter env (st(cacheKey c := None)) c \<and>
            eventsAfter env st c = eventsAfter env (st(cacheKey c := None)) c \<and>
            posts (eventsAfter env st c) =
              [Post (version c) (requestScopes c) (searchBody (getRequestOptions c))])"
proof -
  have period: "getResponseInvalidationTime (config env) (cacheInvalidationPeriod c) = Some P"
    using assms(7) by (simp add: getResponseInvalidationTime_def)
  have rc: "readCache env st c (cacheKey c) =
      (if now env - timeCached entry < P then Inr (Some r) else Inr None, [GetValue (cacheKey c)])"
    using readCache_entry [of env c st "cacheKey c" entry] assms(3,4,5,6) period
    by (simp add: greaterThan_js_def)
  have fresh: "response (componentAfter env st c) = Some r \<and> posts (eventsAfter env st c) = []"
    if "now env - timeCached entry < P"
    using loadState_cached [OF assms(1,2), of st r] rc that
    by (simp add: componentAfter_def eventsAfter_def)
  have stale: "readCache env st c (cacheKey c) =
        readCache env (st(cacheKey c := None)) c (cacheKey c) \<and>
      componentAfter env st c = componentAfter env (st(cacheKey c := None)) c \<and>
      eventsAfter env st c = eventsAfter env (st(cacheKey c := None)) c \<and>
      posts (eventsAfter env st c) =
        [Post (version c) (requestScopes c) (searchBody (getRequestOptions c))]"
    if "P \<le> now env - timeCached entry"
  proof -
    have eq: "readCache env st c (cacheKey c) =
        readCache env (st(cacheKey c := None)) c (cacheKey c)"
      using rc that readCache_absent [of env c "st(cacheKey c := None)" "cacheKey c"] assms(3,4)
      by simp
    have "fst (readCache env st c (cacheKey c)) = Inr None"
      using rc that by simp
    from posts_loadState_fetch [OF assms(1,2) this] loadState_store [OF eq] eq
    show ?thesis by (simp add: componentAfter_def eventsAfter_def)
  qed
  show ?thesis
  proof (intro conjI impI)
    show "getResponseInvalidationTime (config env) (cacheInvalidationPeriod c) = Some P"
      by (rule period)
    show "fst (readCache env st c (cacheKey c)) = Inr (Some r) \<longleftrightarrow>
        now env - timeCached entry < P"
      using rc by simp
  qed (use fresh stale in blast)+
qed

text \<open>
  Three runs with the entry written at time 1000. A component with period 0 falls back
  to the response period 30000 and uses the entry at time 30999; a component with no
  period and a response period 0 falls back to the default 30000 and uses the entry at
  time 30999; with no response period either, the entry is stale at time 31000 and the
  request is posted.
\<close>

theorem cached_response_used_iff_fresh_witness:
  "getResponseInvalidationTime (cacheWith (Some 30000) (Some 1)) (Some 0) = Some 30000 \<and>
   response (componentAfter (envCached (cacheWith (Some 30000) (Some 1)) 30999)
      [cacheKey contosoZeroPeriod \<mapsto> cachedEntry] contosoZeroPeriod) = Some (searchOf []) \<and>
   posts (eventsAfter (envCached (cacheWith (Some 30000) (Some 1)) 30999)
      [cacheKey contosoZeroPeriod \<mapsto> cachedEntry] contosoZeroPeriod) = [] \<and>
   getResponseInvalidationTime (cacheWith (Some 0) (Some 30000)) None = Some 30000 \<and>
   response (componentAfter (envCached (cacheWith (Some 0) (Some 30000)) 30999)
      [cacheKey contosoNoPeriod \<mapsto> cachedEntry] contosoNoPeriod) = Some (searchOf []) \<and>
   posts (eventsAfter (envCached (cacheWith None (Some 30000)) 31000)
      [cacheKey contosoNoPeriod \<mapsto> cachedEntry] contosoNoPeriod) =
     [Post (version contosoNoPeriod) (requestScopes contosoNoPeriod)
        (searchBody (getRequestOptions contosoNoPeriod))]"
proof -
  let ?z = "[cacheKey contosoZeroPeriod \<mapsto> cachedEntry]"
  let ?n = "[cacheKey contosoNoPeriod \<mapsto> cachedEntry]"
  have signed: "signedIn (envCached cfg t)" for cfg t
    by (simp add: envCached_def mkEnv_def)
  have query: "truthyJs (queryString contosoZeroPeriod)" "truthyJs (queryString contosoNoPeriod)"
    by (simp_all add: contosoZeroPeriod_def contosoNoPeriod_def contosoCached_def contoso_def
        truthyJs_def)
  have retrieve: "shouldRetrieveCache (envCached (cacheWith rp dp) t) contosoZeroPeriod"
    "shouldRetrieveCache (envCached (cacheWith rp dp) t) contosoNoPeriod" for rp dp t
    by (simp_all add: envCached_def mkEnv_def cacheWith_def contosoZeroPeriod_def
        contosoNoPeriod_def contosoCached_def contoso_def initial_def shouldRetrieveCache_def
        getIsResponseCacheEnabled_def)
  have store: "getValueError (envCached cfg t) = None" for cfg t
    by (simp add: envCached_def mkEnv_def)
  have entry: "?z (cacheKey contosoZeroPeriod) = Some cachedEntry"
    "?n (cacheKey contosoNoPeriod) = Some cachedEntry"
    by simp_all
  have parse: "JSON_parse (envCached cfg t) (cached_response cachedEntry) =
      Inr (Some (searchOf []))" for cfg t
    by (simp add: envCached_def mkEnv_def)
  have p1: "(if truthyNum (cacheInvalidationPeriod contosoZeroPeriod)
       then cacheInvalidationPeriod contosoZeroPeriod
       else if truthyNum (response_invalidationPeriod
                  (config (envCached (cacheWith (Some 30000) (Some 1)) 30999)))
            then response_invalidationPeriod
                   (config (envCached (cacheWith (Some 30000) (Some 1)) 30999))
            else defaultInvalidationPeriod
                   (config (envCached (cacheWith (Some 30000) (Some 1)) 30999))) = Some 30000"
    by (simp add: contosoZeroPeriod_def envCached_def mkEnv_def cacheWith_def truthyNum_def)
  have p2: "(if truthyNum (cacheInvalidationPeriod contosoNoPeriod)
       then cacheInvalidationPeriod contosoNoPeriod
       else if truthyNum (response_invalidationPeriod
                  (config (envCached (cacheWith (Some 0) (Some 30000)) 30999)))
            then response_invalidationPeriod
                   (config (envCached (cacheWith (Some 0) (Some 30000)) 30999))
            else defaultInvalidationPeriod
                   (config (envCached (cacheWith (Some 0) (Some 30000)) 30999))) = Some 30000"
    by (simp add: contosoNoPeriod_def envCached_def mkEnv_def cacheWith_def truthyNum_def)
  have p3: "(if truthyNum (cacheInvalidationPeriod contosoNoPeriod)
       then cacheInvalidationPeriod contosoNoPeriod
       else if truthyNum (response_invalidationPeriod
                  (config (envCached (cacheWith None (Some 30000)) 31000)))
            then response_invalidationPeriod
                   (config (envCached (cacheWith None (Some 30000)) 31000))
            else defaultInvalidationPeriod
                   (config (envCached (cacheWith None (Some 30000)) 31000))) = Some 30000"
    by (simp add: contosoNoPeriod_def envCached_def mkEnv_def cacheWith_def truthyNum_def)
  have cfg: "config (envCached c t) = c" "cacheInvalidationPeriod contosoZeroPeriod = Some 0"
    "cacheInvalidationPeriod contosoNoPeriod = None" for c t
    by (simp_all add: envCached_def mkEnv_def contosoZeroPeriod_def contosoNoPeriod_def)
  have fresh: "now (envCached c 30999) - timeCached cachedEntry < 30000" for c
    by (simp add: envCached_def mkEnv_def cachedEntry_def)
  have stale: "30000 \<le> now (envCached c 31000) - timeCached cachedEntry" for c
    by (simp add: envCached_def mkEnv_def cachedEntry_def)
  note w1 = cached_response_used_iff_fresh
    [of "envCached (cacheWith (Some 30000) (Some 1)) 30999" contosoZeroPeriod ?z cachedEntry
        "searchOf []" 30000,
     OF signed query(1) retrieve(1) store entry(1) parse p1]
  note w2 = cached_response_used_iff_fresh
    [of "envCached (cacheWith (Some 0) (Some 30000)) 30999" contosoNoPeriod ?n cachedEntry
        "searchOf []" 30000,
     OF signed query(2) retrieve(2) store entry(2) parse p2]
  note w3 = cached_response_used_iff_fresh
    [of "envCached (cacheWith None (Some 30000)) 31000" contosoNoPeriod ?n cachedEntry
        "searchOf []" 30000,
     OF signed query(2) retrieve(2) store entry(2) parse p3]
  show ?thesis
    using w1 w2 w3 fresh stale unfolding cfg by blast
qed

text \<open>
  C4, as the code has it. A cache read that throws (the store rejects, or
  \<^verbatim>\<open>JSON.parse\<close> throws on the payload of a fresh entry) ends the outer \<^verbatim>\<open>try\<close>:
  nothing is posted, the store and the response of the component stay as they were,
  and the exception becomes the error state when the component holds no response.
\<close>

theorem cache_failure_surfaced:
  assumes "signedIn env" and "truthyJs (queryString c)" and "shouldRetrieveCache env c"
    and "getValueError env = Some e \<or>
         (getValueError env = None \<and> st (cacheKey c) = Some entry \<and>
          greaterThan_js (getResponseInvalidationTime (config env) (cacheInvalidationPeriod c))
            (now env - timeCached entry) \<and>
          JSON_parse env (cached_response entry) = Inl e)"
  shows "storeAfter env st c = st \<and>
         posts (eventsAfter env st c) = [] \<and>
         response (componentAfter env st c) = response c \<and>
         error (componentAfter env st c) = (if response c = None then Some e else None)"
proof -
  have "fst (readCache env st c (cacheKey c)) = Inl e"
    using assms(3,4)
    by (auto simp: readCache_def shouldRetrieveCache_def getValue_def)
  from loadState_cache_throws [OF assms(1,2) this] show ?thesis
    by (simp add: storeAfter_def componentAfter_def eventsAfter_def)
qed

theorem cache_failure_surfaced_witness:
  "posts (eventsAfter envCorrupt [cacheKey contosoCached \<mapsto> cachedEntry] contosoCached) = [] \<and>
   error (componentAfter envCorrupt [cacheKey contosoCached \<mapsto> cachedEntry] contosoCached) =
     Some SyntaxError"
proof -
  have "getValueError envCorrupt = Some SyntaxError \<or>
      (getValueError envCorrupt = None \<and>
       [cacheKey contosoCached \<mapsto> cachedEntry] (cacheKey contosoCached) = Some cachedEntry \<and>
       greaterThan_js (getResponseInvalidationTime (config envCorrupt)
          (cacheInvalidationPeriod contosoCached)) (now envCorrupt - timeCached cachedEntry) \<and>
       JSON_parse envCorrupt (cached_response cachedEntry) = Inl SyntaxError)"
    using envCorrupt_facts(4,5,6) by simp
  from cache_failure_surfaced
      [of envCorrupt contosoCached SyntaxError "[cacheKey contosoCached \<mapsto> cachedEntry]"
          cachedEntry, OF envCorrupt_facts(1,2,3) this]
    envCorrupt_facts(8)
  show ?thesis by simp
qed

text \<open>
  C4, as the specification words it, fails: with a fresh entry whose payload does not
  parse, the error state is the \<^verbatim>\<open>SyntaxError\<close>, no response is loaded and nothing is
  posted, where the same component with no entry posts the request and shows its
  response.
\<close>

theorem cache_failure_counterexample:
  "JSON_parse envCorrupt (cached_response cachedEntry) = Inl SyntaxError \<and>
   error (componentAfter envCorrupt [cacheKey contosoCached \<mapsto> cachedEntry] contosoCached) =
     Some SyntaxError \<and>
   response (componentAfter envCorrupt [cacheKey contosoCached \<mapsto> cachedEntry] contosoCached) =
     None \<and>
   posts (eventsAfter envCorrupt [cacheKey contosoCached \<mapsto> cachedEntry] contosoCached) = [] \<and>
   error (componentAfter envCorrupt Map.empty contosoCached) = None \<and>
   response (componentAfter envCorrupt Map.empty contosoCached) = Some (searchOf []) \<and>
   posts (eventsAfter envCorrupt Map.empty contosoCached) =
     [Post (version contosoCached) (requestScopes contosoCached)
        (searchBody (getRequestOptions contosoCached))]"
proof -
  let ?st = "[cacheKey contosoCached \<mapsto> cachedEntry]"
  have "readCache envCorrupt ?st contosoCached (cacheKey contosoCached) =
      (Inl SyntaxError, [GetValue (cacheKey contosoCached)])"
    using readCache_entry [of envCorrupt contosoCached ?st "cacheKey contosoCached" cachedEntry]
      envCorrupt_facts by simp
  then have thrown: "fst (readCache envCorrupt ?st contosoCached (cacheKey contosoCached)) =
      Inl SyntaxError" by simp
  have "readCache envCorrupt Map.empty contosoCached (cacheKey contosoCached) =
      (Inr None, [GetValue (cacheKey contosoCached)])"
    using readCache_absent [of envCorrupt contosoCached Map.empty "cacheKey contosoCached"]
      envCorrupt_facts by simp
  then have miss: "fst (readCache envCorrupt Map.empty contosoCached (cacheKey contosoCached)) =
      Inr None" by simp
  have step: "(if fetchThumbnail contosoCached then fetchThumbnails envCorrupt (searchOf [])
               else (Inr (searchOf []), [])) = (Inr (searchOf []), [])"
    using envCorrupt_facts(9) by simp
  show ?thesis
    using loadState_cache_throws
        [of envCorrupt contosoCached ?st SyntaxError, OF envCorrupt_facts(1,2) thrown]
      loadState_fetched
        [of envCorrupt contosoCached Map.empty "searchOf []" "searchOf []" "[]",
         OF envCorrupt_facts(1,2) miss envCorrupt_facts(7) step]
      posts_loadState_fetch [of envCorrupt contosoCached Map.empty, OF envCorrupt_facts(1,2) miss]
      envCorrupt_facts(6,8)
    by (simp add: componentAfter_def eventsAfter_def)
qed

subsection \<open>The primary request\<close>

text \<open>
  C7, as the code has it. When the primary request throws, the exception is caught
  and the request is posted once, with no retry; the store and the response of the
  component stay as they were. The exception becomes the error state when the
  component holds no response; when it holds one, the error state is reset to null.
\<close>

theorem primary_failure_captured:
  assumes "signedIn env" and "truthyJs (queryString c)"
    and "fst (readCache env st c (cacheKey c)) = Inr None"
    and "primaryRequest env c = Inl e"
  shows "storeAfter env st c = st \<and>
         response (componentAfter env st c) = response c \<and>
         error (componentAfter env st c) = (if response c = None then Some e else None) \<and>
         posts (eventsAfter env st c) =
           [Post (version c) (requestScopes c) (searchBody (getRequestOptions c))]"
  using loadState_post_fails [OF assms]
  by (simp add: storeAfter_def componentAfter_def eventsAfter_def)

theorem primary_failure_captured_witness:
  "error (componentAfter envDown Map.empty contoso) = Some unreachable \<and>
   posts (eventsAfter envDown Map.empty contoso) =
     [Post (version contoso) (requestScopes contoso) (searchBody (getRequestOptions contoso))]"
proof -
  have "response contoso = None"
    by (simp add: contoso_def initial_def)
  then show ?thesis
    using primary_failure_captured
        [of envDown contoso Map.empty unreachable, OF envDown_facts(1,2,4,5)]
    by simp
qed

text \<open>
  C7, as the specification words it, fails: a component that shows the response of an
  earlier query has no error state after a primary request that throws.
\<close>

theorem primary_failure_counterexample:
  "primaryRequest envDown contosoShown = Inl unreachable \<and>
   error (componentAfter envDown Map.empty contosoShown) = None"
proof -
  have "response contosoShown \<noteq> None"
    by (simp add: contosoShown_def)
  then show ?thesis
    using loadState_post_fails
        [of envDown contosoShown Map.empty unreachable, OF envDown_facts(1,3,4,5)]
      envDown_facts(5)
    by (simp add: componentAfter_def)
qed

subsection \<open>The thumbnails\<close>


lemma thumbnailTry_length [simp]: "length (fst (thumbnailTry env b1 b2 hs)) = length hs"
proof -
  have len: "length (fst (augmentResponse b m xs)) = length xs" for b m xs
    by (simp add: augmentResponse_entries)
  show ?thesis
    using len [of V1 _ hs]
    by (auto simp: thumbnailTry_def split_beta len split: sum.split option.split)
qed




text \<open>
  C3, as the code has it. On the fetch path with \<^verbatim>\<open>fetchThumbnail\<close> enabled, once the
  loop has built the two batches, an exception of either batch stays inside the inner
  \<^verbatim>\<open>try\<close>: the error state is null after \<^verbatim>\<open>loadState\<close> and the response holds as many
  hits as the primary response. When the v1.0 batch throws, the beta batch is not
  executed, the response is the primary response and its hits are unmodified. When the
  v1.0 batch resolves and is merged and the beta batch throws, the hits are those the
  v1.0 merge left.
\<close>

theorem thumbnail_failure_contained:
  assumes "signedIn env" and "truthyJs (queryString c)"
    and "fst (readCache env st c (cacheKey c)) = Inr None"
    and "primaryRequest env c = Inr r0" and "fetchThumbnail c"
    and "firstHits r0 = Inr hs" and "thumbnailRequests 0 hs ([], []) = Inr (b1, b2)"
  shows "error (componentAfter env st c) = None \<and>
     (\<exists>hs'. hitsAfter env st c = Inr hs' \<and> length hs' = length hs) \<and>
     (executeAll env V1 b1 = Inl e \<longrightarrow>
        response (componentAfter env st c) = Some r0 \<and> hitsAfter env st c = Inr hs \<and>
        (\<forall>reqs. ExecuteAll Beta reqs \<notin> set (eventsAfter env st c))) \<and>
     (executeAll env V1 b1 = Inr m1 \<and> fst (snd (augmentResponse V1 m1 hs)) = None \<and>
      executeAll env Beta b2 = Inl e \<longrightarrow>
        hitsAfter env st c = Inr (fst (augmentResponse V1 m1 hs)))"
proof (intro conjI impI allI)
  note after = after_thumbnails [OF assms]
  show "error (componentAfter env st c) = None" by (rule after(1))
  show "\<exists>hs'. hitsAfter env st c = Inr hs' \<and> length hs' = length hs"
    using after(3) by simp
  {
    assume v1: "executeAll env V1 b1 = Inl e"
    then have "fst (thumbnailTry env b1 b2 hs) = hs"
      by (simp add: thumbnailTry_def)
    with after(2,3) setHits_same [OF assms(6)]
    show "response (componentAfter env st c) = Some r0" and "hitsAfter env st c = Inr hs"
      by simp_all
    fix reqs
    from v1 have "snd (thumbnailTry env b1 b2 hs) = [ExecuteAll V1 b1, Rejected V1]"
      by (simp add: thumbnailTry_def)
    then show "ExecuteAll Beta reqs \<notin> set (eventsAfter env st c)"
      unfolding after(4)
      using readCache_events [of env st c "cacheKey c"]
        assignResponse_events [of "c\<lparr>error := None\<rparr>" "setHits r0 (fst (thumbnailTry env b1 b2 hs))"]
      by auto
  }
  assume beta: "executeAll env V1 b1 = Inr m1 \<and> fst (snd (augmentResponse V1 m1 hs)) = None \<and>
      executeAll env Beta b2 = Inl e"
  obtain hs1 ev1 where a1: "augmentResponse V1 m1 hs = (hs1, None, ev1)"
    using beta by (cases "augmentResponse V1 m1 hs") auto
  have "fst (thumbnailTry env b1 b2 hs) = hs1"
    using beta by (simp add: thumbnailTry_def a1)
  with after(3) a1 show "hitsAfter env st c = Inr (fst (augmentResponse V1 m1 hs))"
    by simp
qed

theorem thumbnail_failure_contained_witness:
  "error (componentAfter envBetaDown Map.empty contosoThumb) = None \<and>
   hitsAfter envBetaDown Map.empty contosoThumb =
     Inr [withThumbnail \<lparr>url = Some ''https://thumb/f1''\<rparr> h_file, h_page] \<and>
   error (componentAfter envV1Down Map.empty contosoThumb) = None \<and>
   hitsAfter envV1Down Map.empty contosoThumb = Inr hits2 \<and>
   ExecuteAll Beta [pageRequest ''1''] \<notin> set (eventsAfter envV1Down Map.empty contosoThumb)"
proof -
  have beta: "executeAll envBetaDown V1 [fileRequest ''0''] = Inr (Some [(''0'', fileAnswer)]) \<and>
      fst (snd (augmentResponse V1 (Some [(''0'', fileAnswer)]) hits2)) = None \<and>
      executeAll envBetaDown Beta [pageRequest ''1''] = Inl betaDown"
    by (simp add: envBetaDown_def envThumb_facts merge_file)
  have v1: "executeAll envV1Down V1 [fileRequest ''0''] = Inl v1Down"
    by (simp add: envV1Down_def envThumb_facts)
  from thumbnail_failure_contained
    [of envBetaDown contosoThumb Map.empty "searchOf hits2" hits2 "[fileRequest ''0'']"
        "[pageRequest ''1'']" betaDown "Some [(''0'', fileAnswer)]",
     unfolded envBetaDown_def, OF envThumb_facts(1,2,3,5,6,7) requests_hits2,
     folded envBetaDown_def] beta
  have one: "error (componentAfter envBetaDown Map.empty contosoThumb) = None \<and>
      hitsAfter envBetaDown Map.empty contosoThumb =
        Inr [withThumbnail \<lparr>url = Some ''https://thumb/f1''\<rparr> h_file, h_page]"
    by (simp add: merge_file)
  from thumbnail_failure_contained
    [of envV1Down contosoThumb Map.empty "searchOf hits2" hits2 "[fileRequest ''0'']"
        "[pageRequest ''1'']" v1Down None,
     unfolded envV1Down_def, OF envThumb_facts(1,2,3,5,6,7) requests_hits2,
     folded envV1Down_def] v1
  have two: "error (componentAfter envV1Down Map.empty contosoThumb) = None \<and>
      hitsAfter envV1Down Map.empty contosoThumb = Inr hits2 \<and>
      ExecuteAll Beta [pageRequest ''1''] \<notin> set (eventsAfter envV1Down Map.empty contosoThumb)"
    by blast
  from one two show ?thesis by blast
qed

text \<open>
  C3, as the specification words it, fails: the v1.0 batch answers for the file, the
  beta batch throws, and the file hit of the response has a thumbnail that the primary
  hit did not have.
\<close>

theorem thumbnail_failure_counterexample:
  "executeAll envBetaDown Beta [pageRequest ''1''] = Inl betaDown \<and>
   firstHits (searchOf hits2) = Inr [h_file, h_page] \<and>
   hitsAfter envBetaDown Map.empty contosoThumb =
     Inr [withThumbnail \<lparr>url = Some ''https://thumb/f1''\<rparr> h_file, h_page] \<and>
   withThumbnail \<lparr>url = Some ''https://thumb/f1''\<rparr> h_file \<noteq> h_file"
proof -
  have tried: "fst (thumbnailTry envBetaDown [fileRequest ''0''] [pageRequest ''1''] hits2) =
      [withThumbnail \<lparr>url = Some ''https://thumb/f1''\<rparr> h_file, h_page]"
    by (simp add: thumbnailTry_def envBetaDown_def envThumb_facts merge_file)
  have "hitsAfter envBetaDown Map.empty contosoThumb =
      Inr (fst (thumbnailTry envBetaDown [fileRequest ''0''] [pageRequest ''1''] hits2))"
    by (rule after_thumbnails(3)
        [of envBetaDown contosoThumb Map.empty "searchOf hits2" hits2 "[fileRequest ''0'']"
            "[pageRequest ''1'']",
         unfolded envBetaDown_def, OF envThumb_facts(1,2,3,5,6,7) requests_hits2,
         folded envBetaDown_def])
  with tried show ?thesis
    by (simp add: envBetaDown_def envThumb_facts)
       (simp add: hits2_def withThumbnail_def h_file_def)
qed

lemma merged_mutations:
  "list_all (isMutateOf b) evs \<Longrightarrow> b \<in> R \<Longrightarrow>
   mergedAfterResolved R (evs @ rest) = mergedAfterResolved R rest"
proof (induction evs)
  case Nil
  then show ?case by simp
next
  case (Cons e evs)
  then show ?case by (cases e) simp_all
qed

lemma merged_thumbnailTry:
  assumes "\<And>R. mergedAfterResolved R rest"
  shows "mergedAfterResolved {} (snd (thumbnailTry env b1 b2 hs) @ rest)"
proof -
  from thumbnailTry_events [of env b1 b2 hs]
  obtain ev1 ev2 where m: "list_all (isMutateOf V1) ev1" "list_all (isMutateOf Beta) ev2"
    and shape: "snd (thumbnailTry env b1 b2 hs) = [ExecuteAll V1 b1, Rejected V1] \<or>
      snd (thumbnailTry env b1 b2 hs) = [ExecuteAll V1 b1, Resolved V1] @ ev1 \<or>
      snd (thumbnailTry env b1 b2 hs) =
        [ExecuteAll V1 b1, Resolved V1] @ ev1 @ [ExecuteAll Beta b2, Rejected Beta] \<or>
      snd (thumbnailTry env b1 b2 hs) =
        [ExecuteAll V1 b1, Resolved V1] @ ev1 @ [ExecuteAll Beta b2, Resolved Beta] @ ev2"
    by blast
  have v1: "mergedAfterResolved {V1} (ev1 @ xs) = mergedAfterResolved {V1} xs" for xs
    by (rule merged_mutations [OF m(1)]) simp
  have beta: "mergedAfterResolved {Beta, V1} (ev2 @ xs) = mergedAfterResolved {Beta, V1} xs" for xs
    by (rule merged_mutations [OF m(2)]) simp
  from shape show ?thesis
  proof (elim disjE)
    assume s: "snd (thumbnailTry env b1 b2 hs) = [ExecuteAll V1 b1, Rejected V1]"
    show ?thesis by (simp add: s assms)
  next
    assume s: "snd (thumbnailTry env b1 b2 hs) = [ExecuteAll V1 b1, Resolved V1] @ ev1"
    show ?thesis by (simp add: s v1 assms)
  next
    assume s: "snd (thumbnailTry env b1 b2 hs) =
        [ExecuteAll V1 b1, Resolved V1] @ ev1 @ [ExecuteAll Beta b2, Rejected Beta]"
    show ?thesis by (simp add: s v1 assms)
  next
    assume s: "snd (thumbnailTry env b1 b2 hs) =
        [ExecuteAll V1 b1, Resolved V1] @ ev1 @ [ExecuteAll Beta b2, Resolved Beta] @ ev2"
    show ?thesis by (simp add: s v1 beta assms)
  qed
qed

lemma assigned_skip:
  "SetResponse \<notin> set evs \<Longrightarrow> assignedAfterMerges (evs @ rest) = assignedAfterMerges rest"
proof (induction evs)
  case Nil
  then show ?case by simp
next
  case (Cons e evs)
  then show ?case by (cases e) simp_all
qed

lemma thumbnailTry_no_assign: "SetResponse \<notin> set (snd (thumbnailTry env b1 b2 hs))"
proof -
  from thumbnailTry_events [of env b1 b2 hs]
  obtain ev1 ev2 where m: "list_all (isMutateOf V1) ev1" "list_all (isMutateOf Beta) ev2"
    and shape: "snd (thumbnailTry env b1 b2 hs) = [ExecuteAll V1 b1, Rejected V1] \<or>
      snd (thumbnailTry env b1 b2 hs) = [ExecuteAll V1 b1, Resolved V1] @ ev1 \<or>
      snd (thumbnailTry env b1 b2 hs) =
        [ExecuteAll V1 b1, Resolved V1] @ ev1 @ [ExecuteAll Beta b2, Rejected Beta] \<or>
      snd (thumbnailTry env b1 b2 hs) =
        [ExecuteAll V1 b1, Resolved V1] @ ev1 @ [ExecuteAll Beta b2, Resolved Beta] @ ev2"
    by blast
  have "SetResponse \<notin> set ev1" "SetResponse \<notin> set ev2"
    using m by (auto simp: list_all_iff)
  with shape show ?thesis by auto
qed

lemma sequential_v1_mutations:
  "list_all (isMutateOf V1) evs \<Longrightarrow>
   betaAfterV1Merge r False (evs @ rest) = betaAfterV1Merge r False rest"
proof (induction evs)
  case Nil
  then show ?case by simp
next
  case (Cons e evs)
  then show ?case by (cases e) simp_all
qed

lemma sequential_beta_mutations:
  "list_all (isMutateOf Beta) evs \<Longrightarrow>
   betaAfterV1Merge r x (evs @ rest) = betaAfterV1Merge r x rest"
proof (induction evs)
  case Nil
  then show ?case by simp
next
  case (Cons e evs)
  then show ?case by (cases e) simp_all
qed

lemma sequential_thumbnailTry:
  assumes "\<And>r x. betaAfterV1Merge r x rest"
  shows "betaAfterV1Merge False False (snd (thumbnailTry env b1 b2 hs) @ rest)"
proof -
  from thumbnailTry_events [of env b1 b2 hs]
  obtain ev1 ev2 where m: "list_all (isMutateOf V1) ev1" "list_all (isMutateOf Beta) ev2"
    and shape: "snd (thumbnailTry env b1 b2 hs) = [ExecuteAll V1 b1, Rejected V1] \<or>
      snd (thumbnailTry env b1 b2 hs) = [ExecuteAll V1 b1, Resolved V1] @ ev1 \<or>
      snd (thumbnailTry env b1 b2 hs) =
        [ExecuteAll V1 b1, Resolved V1] @ ev1 @ [ExecuteAll Beta b2, Rejected Beta] \<or>
      snd (thumbnailTry env b1 b2 hs) =
        [ExecuteAll V1 b1, Resolved V1] @ ev1 @ [ExecuteAll Beta b2, Resolved Beta] @ ev2"
    by blast
  note v1 = sequential_v1_mutations [OF m(1)]
  note beta = sequential_beta_mutations [OF m(2)]
  from shape show ?thesis
  proof (elim disjE)
    assume s: "snd (thumbnailTry env b1 b2 hs) = [ExecuteAll V1 b1, Rejected V1]"
    show ?thesis by (simp add: s assms)
  next
    assume s: "snd (thumbnailTry env b1 b2 hs) = [ExecuteAll V1 b1, Resolved V1] @ ev1"
    show ?thesis by (simp add: s v1 assms)
  next
    assume s: "snd (thumbnailTry env b1 b2 hs) =
        [ExecuteAll V1 b1, Resolved V1] @ ev1 @ [ExecuteAll Beta b2, Rejected Beta]"
    show ?thesis by (simp add: s v1 assms)
  next
    assume s: "snd (thumbnailTry env b1 b2 hs) =
        [ExecuteAll V1 b1, Resolved V1] @ ev1 @ [ExecuteAll Beta b2, Resolved Beta] @ ev2"
    show ?thesis by (simp add: s v1 beta assms)
  qed
qed

text \<open>
  C5, as the code has it. On the fetch path with \<^verbatim>\<open>fetchThumbnail\<close> enabled, once the
  loop has built the two batches: a hit is written with the responses of a batch only
  after that batch has resolved; the beta batch is executed only after the v1.0 batch
  has resolved, and no hit is written with a v1.0 response after the beta batch has
  been executed, so the v1.0 responses are merged before the beta batch is executed;
  the response is assigned to the component after the last write to a hit.
\<close>

theorem merged_after_own_batch:
  assumes "signedIn env" and "truthyJs (queryString c)"
    and "fst (readCache env st c (cacheKey c)) = Inr None"
    and "primaryRequest env c = Inr r0" and "fetchThumbnail c"
    and "firstHits r0 = Inr hs" and "thumbnailRequests 0 hs ([], []) = Inr (b1, b2)"
  shows "mergedAfterResolved {} (eventsAfter env st c) \<and>
         betaAfterV1Merge False False (eventsAfter env st c) \<and>
         assignedAfterMerges (eventsAfter env st c)"
proof (intro conjI)
  note ev = after_thumbnails(4) [OF assms]
  let ?r = "setHits r0 (fst (thumbnailTry env b1 b2 hs))"
  let ?tail = "snd (assignResponse (c\<lparr>error := None\<rparr>) ?r) @
      (if shouldUpdateCache env c then [PutValue (cacheKey c) (stringifyResponse env ?r)] else []) @
      [FireDataChange]"
  have quiet: "mergedAfterResolved R ?tail" for R
    using assignResponse_events [of "c\<lparr>error := None\<rparr>" ?r] by auto
  have "mergedAfterResolved {}
      (Post (version c) (requestScopes c) (searchBody (getRequestOptions c)) #
       snd (thumbnailTry env b1 b2 hs) @ ?tail)"
    using merged_thumbnailTry [of ?tail env b1 b2 hs, OF quiet] by simp
  then show "mergedAfterResolved {} (eventsAfter env st c)"
    unfolding ev using readCache_events [of env st c "cacheKey c"] by auto
  have still: "betaAfterV1Merge r x ?tail" for r x
    using assignResponse_events [of "c\<lparr>error := None\<rparr>" ?r] by auto
  have "betaAfterV1Merge False False
      (Post (version c) (requestScopes c) (searchBody (getRequestOptions c)) #
       snd (thumbnailTry env b1 b2 hs) @ ?tail)"
    using sequential_thumbnailTry [of ?tail env b1 b2 hs, OF still] by simp
  then show "betaAfterV1Merge False False (eventsAfter env st c)"
    unfolding ev using readCache_events [of env st c "cacheKey c"] by auto
  have last: "assignedAfterMerges ?tail"
    using assignResponse_events [of "c\<lparr>error := None\<rparr>" ?r] by auto
  have "assignedAfterMerges
      (Post (version c) (requestScopes c) (searchBody (getRequestOptions c)) #
       snd (thumbnailTry env b1 b2 hs) @ ?tail)"
    using assigned_skip [OF thumbnailTry_no_assign, of env b1 b2 hs ?tail] last by simp
  then show "assignedAfterMerges (eventsAfter env st c)"
    unfolding ev using readCache_events [of env st c "cacheKey c"] by auto
qed

theorem merged_after_own_batch_witness:
  "mergedAfterResolved {} (eventsAfter envBoth Map.empty contosoThumb) \<and>
   betaAfterV1Merge False False (eventsAfter envBoth Map.empty contosoThumb) \<and>
   assignedAfterMerges (eventsAfter envBoth Map.empty contosoThumb)"
  by (rule merged_after_own_batch
      [of envBoth contosoThumb Map.empty "searchOf hits2" hits2 "[fileRequest ''0'']"
          "[pageRequest ''1'']",
       unfolded envBoth_def, OF envThumb_facts(1,2,3,5,6,7) requests_hits2,
       folded envBoth_def])

text \<open>
  C5, as the specification words it, fails: the file hit is written once the v1.0
  batch has resolved, before the beta batch is executed.
\<close>

theorem mutated_before_beta_counterexample:
  "eventsAfter envBoth Map.empty contosoThumb =
     [Post (version contosoThumb) (requestScopes contosoThumb)
        (searchBody (getRequestOptions contosoThumb)),
      ExecuteAll V1 [fileRequest ''0''], Resolved V1, Mutate V1 ''0'',
      ExecuteAll Beta [pageRequest ''1''], Resolved Beta, Mutate Beta ''1'',
      SetResponse, FireDataChange] \<and>
   \<not> mutatedAfterBoth {} (eventsAfter envBoth Map.empty contosoThumb)"
  by (simp add: events_both)

end
